theory Spec2Isabelle
  imports Main "HOL-Library.Sublist"
begin

section \<open>The file system the script works on\<close>

text \<open>
  The script \<^verbatim>\<open>main.py\<close> reads and changes the local file system through
  \<^verbatim>\<open>os\<close>, \<^verbatim>\<open>shutil\<close> and \<^verbatim>\<open>send2trash\<close>. The backup folder, the
  scratch folder \<^verbatim>\<open>temp\<close> and the files in them live in one store, so that a run
  in which one lies inside the other is a state of the model like any other.

  A path is the list of its components; \<^verbatim>\<open>os.path.join(p, n)\<close> appends the component
  \<open>n\<close>. The store is an association list from paths to nodes. Its order is the order in
  which the operating system enumerates entries (\<^verbatim>\<open>os.scandir\<close>, \<^verbatim>\<open>os.listdir\<close>),
  which Python leaves arbitrary.

  Each call into the Python library is a definition that does to this store what the
  library's documentation says the call does, with the exceptions it raises as results.
  The modification time of a directory stays as it is when an entry is created or removed
  in it.

  A modification time is the float that \<^verbatim>\<open>os.path.getmtime\<close> returns. The script
  only compares such values, so the model takes any linearly ordered type for them.
\<close>

type_synonym path = "string list"

type_synonym bytes = string

datatype 't node = File 't bytes | Dir 't

type_synonym 't filesystem = "(path \<times> 't node) list"

fun mtime :: "'t node \<Rightarrow> 't" where
  "mtime (File t c) = t"
| "mtime (Dir t) = t"

fun is_dir :: "'t node \<Rightarrow> bool" where
  "is_dir (File t c) = False"
| "is_dir (Dir t) = True"

text \<open>The exceptions a run can end with. \<open>NoBackupFolders\<close> is the
  \<^verbatim>\<open>Exception(f"Failed to find any backup folders in {backup_parent_dir}")\<close> of
  \<^verbatim>\<open>find_backup_folder\<close>, which the specification calls \<open>NoCandidatesError\<close>.\<close>

datatype error =
    FileNotFoundError path
  | NotADirectoryError path
  | IsADirectoryError path
  | NoBackupFolders path
  | S3UploadFailedError
  | TypeError

text \<open>A store is well formed when no path occurs twice.\<close>

definition wf_fs :: "'t filesystem \<Rightarrow> bool" where
  "wf_fs fs = distinct (map fst fs)"

text \<open>\<^verbatim>\<open>os.path.getmtime(p)\<close>: raises when nothing is at \<open>p\<close>.\<close>

definition getmtime :: "'t filesystem \<Rightarrow> path \<Rightarrow> error + 't" where
  "getmtime fs p = (case map_of fs p of None \<Rightarrow> Inl (FileNotFoundError p) | Some n \<Rightarrow> Inr (mtime n))"

text \<open>The entries directly inside a directory, in enumeration order.\<close>

definition child_of :: "path \<Rightarrow> path \<Rightarrow> bool" where
  "child_of parent q = (q \<noteq> [] \<and> butlast q = parent)"

definition children :: "'t filesystem \<Rightarrow> path \<Rightarrow> 't filesystem" where
  "children fs parent = filter (\<lambda>e. child_of parent (fst e)) fs"

text \<open>\<^verbatim>\<open>os.scandir(parent)\<close>: the entries of \<open>parent\<close>, each with its full path
  (\<^verbatim>\<open>f.path\<close>) and its kind (\<^verbatim>\<open>f.is_dir()\<close>); raises when \<open>parent\<close> is missing or
  is a file.\<close>

definition scandir :: "'t filesystem \<Rightarrow> path \<Rightarrow> error + 't filesystem" where
  "scandir fs parent =
     (case map_of fs parent of
        None \<Rightarrow> Inl (FileNotFoundError parent)
      | Some (File t c) \<Rightarrow> Inl (NotADirectoryError parent)
      | Some (Dir t) \<Rightarrow> Inr (children fs parent))"

section \<open>Backup Locator\<close>

text \<open>
  The loop of \<^verbatim>\<open>find_latest_modified_directory\<close>, with its two variables
  \<^verbatim>\<open>ret_path\<close> and \<^verbatim>\<open>newest_timestamp\<close> (both start as \<^verbatim>\<open>None\<close>):
  \<^verbatim>\<open>
    for p in paths:
        modified_timestamp = os.path.getmtime(p)
        if newest_timestamp is None or modified_timestamp > newest_timestamp:
            newest_timestamp = modified_timestamp
            ret_path = p
    return ret_path
  \<close>
\<close>

fun latest_loop ::
  "('t::linorder) filesystem \<Rightarrow> path list \<Rightarrow> path option \<Rightarrow> 't option \<Rightarrow> error + path option" where
  "latest_loop fs [] ret_path newest_timestamp = Inr ret_path"
| "latest_loop fs (p # ps) ret_path newest_timestamp =
     (case getmtime fs p of
        Inl e \<Rightarrow> Inl e
      | Inr modified_timestamp \<Rightarrow>
          (case newest_timestamp of
             None \<Rightarrow> latest_loop fs ps (Some p) (Some modified_timestamp)
           | Some nt \<Rightarrow>
               if modified_timestamp > nt
               then latest_loop fs ps (Some p) (Some modified_timestamp)
               else latest_loop fs ps ret_path newest_timestamp))"

definition find_latest_modified_directory ::
  "('t::linorder) filesystem \<Rightarrow> path list \<Rightarrow> error + path option" where
  "find_latest_modified_directory fs paths = latest_loop fs paths None None"

text \<open>The part of the configuration file the run reads:
  \<^verbatim>\<open>CONFIG['machine']['backup_folder_path']\<close>, \<^verbatim>\<open>CONFIG['machine']['name']\<close> and
  \<^verbatim>\<open>CONFIG['wasabi']['archive_bucket_name']\<close>.\<close>

record config =
  machine_backup_folder_path :: path
  machine_name :: string
  wasabi_archive_bucket_name :: string

text \<open>
  \<^verbatim>\<open>
    backup_folders = [f.path for f in os.scandir(backup_parent_dir) if f.is_dir()]
    if len(backup_folders) == 0:
        raise Exception(...)
    return find_latest_modified_directory(backup_folders)
  \<close>
\<close>

definition find_backup_folder ::
  "config \<Rightarrow> ('t::linorder) filesystem \<Rightarrow> error + path option" where
  "find_backup_folder cfg fs =
     (let backup_parent_dir = machine_backup_folder_path cfg in
      case scandir fs backup_parent_dir of
        Inl e \<Rightarrow> Inl e
      | Inr entries \<Rightarrow>
          (let backup_folders = map fst (filter (\<lambda>f. is_dir (snd f)) entries) in
           if length backup_folders = 0 then Inl (NoBackupFolders backup_parent_dir)
           else find_latest_modified_directory fs backup_folders))"

section \<open>What the run is given\<close>

text \<open>
  The values the run takes from outside: the directory the script is in
  (\<^verbatim>\<open>script_directory()\<close>), the string \<^verbatim>\<open>time.strftime("%Y%m%d-%H%M%S")\<close> returns,
  the time the operating system stamps on what the run creates, the working directory,
  the zip encoder behind \<^verbatim>\<open>shutil.make_archive\<close> (a function of the archived tree),
  what the archive file holds while it is being written, and whether the transfer to the
  bucket goes through.
\<close>

record 't env =
  script_directory :: path
  strftime :: string
  clock :: 't
  cwd :: path
  zip_bytes :: "'t filesystem \<Rightarrow> bytes"
  zip_partial :: bytes
  network_ok :: bool

text \<open>The state a run changes: the local store, the objects of the remote buckets
  (by bucket name and key) and what \<^verbatim>\<open>send2trash\<close> has moved to the trash (the path
  and the tree that was there).\<close>

record 't world =
  disk :: "'t filesystem"
  bucket :: "string \<times> string \<Rightarrow> bytes option"
  trash :: "(path \<times> 't filesystem) list"

definition TEMP_DIR_NAME :: string where
  "TEMP_DIR_NAME = ''temp''"

definition BACKUP_PREFIX :: string where
  "BACKUP_PREFIX = ''backup''"

definition build_local_path :: "'t env \<Rightarrow> string \<Rightarrow> path" where
  "build_local_path e final_path_component = script_directory e @ [final_path_component]"

text \<open>\<^verbatim>\<open>if not os.path.exists(dir_path): os.makedirs(dir_path)\<close>. The only directory the
  script creates is \<^verbatim>\<open>temp\<close> beside itself, so the parent is there already.\<close>

definition create_directory :: "'t filesystem \<Rightarrow> 't \<Rightarrow> path \<Rightarrow> 't filesystem" where
  "create_directory fs now dir_path =
     (if map_of fs dir_path = None then fs @ [(dir_path, Dir now)] else fs)"

definition setup_temp_folder :: "'t env \<Rightarrow> 't filesystem \<Rightarrow> 't filesystem" where
  "setup_temp_folder e fs = create_directory fs (clock e) (build_local_path e TEMP_DIR_NAME)"

section \<open>Naming, archiving and uploading\<close>

definition create_backup_name :: "'t env \<Rightarrow> string" where
  "create_backup_name e = BACKUP_PREFIX @ ''_'' @ strftime e"

text \<open>\<^verbatim>\<open>f"{p}.zip"\<close>: the extension goes on the last component.\<close>

definition add_suffix :: "path \<Rightarrow> string \<Rightarrow> path" where
  "add_suffix p ext = butlast p @ [last p @ ext]"

text \<open>Writing a file: replaces the content of a file that is there, adds the file at the
  end otherwise.\<close>

primrec store :: "path \<Rightarrow> 't node \<Rightarrow> 't filesystem \<Rightarrow> 't filesystem" where
  "store p n [] = [(p, n)]"
| "store p n (e # es) = (if fst e = p then (p, n) # es else e # store p n es)"

definition write_file :: "'t filesystem \<Rightarrow> path \<Rightarrow> 't \<Rightarrow> bytes \<Rightarrow> error + 't filesystem" where
  "write_file fs p now data =
     (case map_of fs p of
        Some (Dir t) \<Rightarrow> Inl (IsADirectoryError p)
      | _ \<Rightarrow>
        (case map_of fs (butlast p) of
           Some (File t c) \<Rightarrow> Inl (NotADirectoryError (butlast p))
         | _ \<Rightarrow> Inr (store p (File now data) fs)))"

text \<open>The tree under a directory, with paths relative to it.\<close>

definition subtree :: "'t filesystem \<Rightarrow> path \<Rightarrow> 't filesystem" where
  "subtree fs root =
     map (\<lambda>e. (drop (length root) (fst e), snd e)) (filter (\<lambda>e. prefix root (fst e)) fs)"

text \<open>The files of a tree, each with its content: what an archive of the tree is to
  give back.\<close>

fun files_of :: "'t filesystem \<Rightarrow> (path \<times> bytes) list" where
  "files_of [] = []"
| "files_of ((p, File t c) # es) = (p, c) # files_of es"
| "files_of ((p, Dir t) # es) = files_of es"

text \<open>\<^verbatim>\<open>shutil.make_archive(base_name, 'zip', root_dir)\<close>: archives the tree under
  \<open>root_dir\<close> (the working directory when it is \<^verbatim>\<open>None\<close>) into the file
  \<^verbatim>\<open>base_name + ".zip"\<close>, creating the directory of that file when it is missing.
  The library opens the file with \<^verbatim>\<open>zipfile.ZipFile(zip_filename, "w")\<close>, which creates
  it or empties the one that is there, then walks the tree with \<^verbatim>\<open>os.walk\<close> and adds
  what it finds: an archive file that lies inside the tree is found by the walk and added
  with what it holds at that moment.\<close>

definition make_archive ::
  "'t env \<Rightarrow> 't filesystem \<Rightarrow> path \<Rightarrow> path option \<Rightarrow> error + 't filesystem" where
  "make_archive e fs base_name root_dir =
     (let root = (case root_dir of None \<Rightarrow> cwd e | Some r \<Rightarrow> r);
          zip_filename = add_suffix base_name ''.zip''
      in case map_of fs root of
           None \<Rightarrow> Inl (FileNotFoundError root)
         | Some (File t c) \<Rightarrow> Inl (NotADirectoryError root)
         | Some (Dir t) \<Rightarrow>
             (case write_file (create_directory fs (clock e) (butlast zip_filename)) zip_filename
                     (clock e) (zip_partial e) of
                Inl err \<Rightarrow> Inl err
              | Inr opened \<Rightarrow>
                  Inr (store zip_filename (File (clock e) (zip_bytes e (subtree opened root)))
                         opened)))"

definition read_file :: "'t filesystem \<Rightarrow> path \<Rightarrow> error + bytes" where
  "read_file fs p =
     (case map_of fs p of
        None \<Rightarrow> Inl (FileNotFoundError p)
      | Some (Dir t) \<Rightarrow> Inl (IsADirectoryError p)
      | Some (File t c) \<Rightarrow> Inr c)"

text \<open>The key of \<^verbatim>\<open>upload_zipped_folder\<close>:
  \<^verbatim>\<open>f"{CONFIG['machine']['name']}/{backup_base_name}.zip"\<close>.\<close>

definition s3_key :: "config \<Rightarrow> string \<Rightarrow> string" where
  "s3_key cfg backup_base_name = machine_name cfg @ ''/'' @ backup_base_name @ ''.zip''"

text \<open>\<^verbatim>\<open>S3.meta.client.upload_file(zipped_file_path, bucket_name, s3_key)\<close>: stores the
  content of the local file under the key, or raises.\<close>

definition upload_zipped_folder ::
  "'t env \<Rightarrow> config \<Rightarrow> 't world \<Rightarrow> string \<Rightarrow> path \<Rightarrow> error + 't world" where
  "upload_zipped_folder e cfg w backup_base_name zipped_file_path =
     (let bucket_name = wasabi_archive_bucket_name cfg;
          key = s3_key cfg backup_base_name
      in case read_file (disk w) zipped_file_path of
           Inl err \<Rightarrow> Inl err
         | Inr data \<Rightarrow>
             if network_ok e then Inr (w\<lparr>bucket := (bucket w)((bucket_name, key) \<mapsto> data)\<rparr>)
             else Inl S3UploadFailedError)"

section \<open>Cleanup\<close>

text \<open>\<^verbatim>\<open>f.endswith('.zip')\<close>\<close>

definition endswith :: "string \<Rightarrow> string \<Rightarrow> bool" where
  "endswith f ext = suffix ext f"

text \<open>\<^verbatim>\<open>os.listdir(d)\<close>: the names of the entries of \<open>d\<close>.\<close>

definition listdir :: "'t filesystem \<Rightarrow> path \<Rightarrow> error + string list" where
  "listdir fs d =
     (case scandir fs d of Inl e \<Rightarrow> Inl e | Inr entries \<Rightarrow> Inr (map (\<lambda>f. last (fst f)) entries))"

text \<open>\<^verbatim>\<open>os.remove(p)\<close>: removes a file; raises on a directory and on a missing path.\<close>

definition os_remove :: "'t filesystem \<Rightarrow> path \<Rightarrow> error + 't filesystem" where
  "os_remove fs p =
     (case map_of fs p of
        None \<Rightarrow> Inl (FileNotFoundError p)
      | Some (Dir t) \<Rightarrow> Inl (IsADirectoryError p)
      | Some (File t c) \<Rightarrow> Inr (filter (\<lambda>e. fst e \<noteq> p) fs))"

text \<open>The loop \<^verbatim>\<open>for f in zip_files: os.remove(os.path.join(temp_dir, f))\<close>. An
  exception leaves the loop with the store as it is then.\<close>

fun remove_loop :: "path \<Rightarrow> string list \<Rightarrow> 't filesystem \<Rightarrow> error option \<times> 't filesystem" where
  "remove_loop temp_dir [] fs = (None, fs)"
| "remove_loop temp_dir (f # rest) fs =
     (case os_remove fs (temp_dir @ [f]) of
        Inl e \<Rightarrow> (Some e, fs)
      | Inr fs' \<Rightarrow> remove_loop temp_dir rest fs')"

definition clean_temp_folder :: "'t env \<Rightarrow> 't filesystem \<Rightarrow> error option \<times> 't filesystem" where
  "clean_temp_folder e fs =
     (let temp_dir = build_local_path e TEMP_DIR_NAME
      in case listdir fs temp_dir of
           Inl err \<Rightarrow> (Some err, fs)
         | Inr names \<Rightarrow>
             (let zip_files = filter (\<lambda>f. endswith f ''.zip'') names
              in remove_loop temp_dir zip_files fs))"

text \<open>\<^verbatim>\<open>send2trash(p)\<close>: moves what is at \<open>p\<close>, with everything under it, to the trash.\<close>

definition send2trash :: "'t world \<Rightarrow> path \<Rightarrow> error + 't world" where
  "send2trash w p =
     (case map_of (disk w) p of
        None \<Rightarrow> Inl (FileNotFoundError p)
      | Some n \<Rightarrow>
          Inr (w\<lparr>disk := filter (\<lambda>e. \<not> prefix p (fst e)) (disk w),
                 trash := (p, filter (\<lambda>e. prefix p (fst e)) (disk w)) # trash w\<rparr>))"

definition trash_backup_folder :: "'t world \<Rightarrow> path option \<Rightarrow> error + 't world" where
  "trash_backup_folder w backup_folder_path =
     (case backup_folder_path of None \<Rightarrow> Inl TypeError | Some p \<Rightarrow> send2trash w p)"

text \<open>
  \<^verbatim>\<open>
    clean_temp_folder()
    if TRASH_BACKUP_FOLDER:
        trash_backup_folder(backup_folder_path)
  \<close>
\<close>

definition cleanup ::
  "'t env \<Rightarrow> bool \<Rightarrow> 't world \<Rightarrow> path option \<Rightarrow> error option \<times> 't world" where
  "cleanup e TRASH_BACKUP_FOLDER w backup_folder_path =
     (case clean_temp_folder e (disk w) of
        (Some err, fs') \<Rightarrow> (Some err, w\<lparr>disk := fs'\<rparr>)
      | (None, fs') \<Rightarrow>
          if TRASH_BACKUP_FOLDER
          then (case trash_backup_folder (w\<lparr>disk := fs'\<rparr>) backup_folder_path of
                  Inl err \<Rightarrow> (Some err, w\<lparr>disk := fs'\<rparr>)
                | Inr w' \<Rightarrow> (None, w'))
          else (None, w\<lparr>disk := fs'\<rparr>))"

section \<open>The run\<close>

text \<open>
  \<^verbatim>\<open>main\<close>, from \<^verbatim>\<open>setup_temp_folder\<close> on: the result is the exception the run
  ended with (\<open>None\<close> for a normal exit) and the state it left. No exception is caught
  anywhere, so the first one ends the run.
\<close>

definition main :: "('t::linorder) env \<Rightarrow> config \<Rightarrow> bool \<Rightarrow> 't world \<Rightarrow> error option \<times> 't world" where
  "main e cfg TRASH_BACKUP_FOLDER w0 =
     (let w1 = w0\<lparr>disk := setup_temp_folder e (disk w0)\<rparr>
      in case find_backup_folder cfg (disk w1) of
           Inl err \<Rightarrow> (Some err, w1)
         | Inr backup_folder_path \<Rightarrow>
             (let backup_base_name = create_backup_name e;
                  temp_zip_path = build_local_path e TEMP_DIR_NAME @ [backup_base_name]
              in case make_archive e (disk w1) temp_zip_path backup_folder_path of
                   Inl err \<Rightarrow> (Some err, w1)
                 | Inr fs2 \<Rightarrow>
                     (let w2 = w1\<lparr>disk := fs2\<rparr>
                      in case upload_zipped_folder e cfg w2 backup_base_name
                                (add_suffix temp_zip_path ''.zip'') of
                           Inl err \<Rightarrow> (Some err, w2)
                         | Inr w3 \<Rightarrow> cleanup e TRASH_BACKUP_FOLDER w3 backup_folder_path)))"

section \<open>Example states\<close>

text \<open>A machine with two backup runs and a file beside them under \<^verbatim>\<open>/data/backups\<close>,
  and the script in \<^verbatim>\<open>/opt/helper\<close> with a scratch folder that holds a stray archive
  of an earlier run and a text file.\<close>

definition ex_cfg :: config where
  "ex_cfg = \<lparr>machine_backup_folder_path = [''data'', ''backups''], machine_name = ''host1'',
             wasabi_archive_bucket_name = ''archive''\<rparr>"

definition ex_env :: "int env" where
  "ex_env = \<lparr>script_directory = [''opt'', ''helper''], strftime = ''20120515-155045'', clock = 9,
             cwd = [''opt'', ''helper''], zip_bytes = (\<lambda>tree. ''PK''), zip_partial = ''P'',
             network_ok = True\<rparr>"

definition ex_disk :: "int filesystem" where
  "ex_disk =
     [([''data''], Dir 0),
      ([''data'', ''backups''], Dir 0),
      ([''data'', ''backups'', ''run_a''], Dir 1),
      ([''data'', ''backups'', ''notes.txt''], File 7 ''n''),
      ([''data'', ''backups'', ''run_b''], Dir 2),
      ([''data'', ''backups'', ''run_b'', ''db.sql''], File 2 ''rows''),
      ([''opt''], Dir 0),
      ([''opt'', ''helper''], Dir 0),
      ([''opt'', ''helper'', ''temp''], Dir 0),
      ([''opt'', ''helper'', ''temp'', ''old.zip''], File 0 ''PK-old''),
      ([''opt'', ''helper'', ''temp'', ''keep.txt''], File 0 ''k'')]"

definition ex_world :: "int world" where
  "ex_world = \<lparr>disk = ex_disk, bucket = Map.empty, trash = []\<rparr>"

text \<open>Two runs with the same, greatest modification time.\<close>

definition ex_tie_disk :: "int filesystem" where
  "ex_tie_disk =
     [([''data''], Dir 0),
      ([''data'', ''backups''], Dir 0),
      ([''data'', ''backups'', ''run_a''], Dir 1),
      ([''data'', ''backups'', ''run_b''], Dir 5),
      ([''data'', ''backups'', ''run_c''], Dir 5)]"

text \<open>A parent directory that holds a file and no directory.\<close>

definition ex_files_only_disk :: "int filesystem" where
  "ex_files_only_disk =
     [([''data''], Dir 0),
      ([''data'', ''backups''], Dir 0),
      ([''data'', ''backups'', ''notes.txt''], File 7 ''n'')]"

text \<open>A scratch folder with a directory named \<^verbatim>\<open>old.zip\<close>, listed before an archive.\<close>

definition ex_zipdir_disk :: "int filesystem" where
  "ex_zipdir_disk =
     [([''opt''], Dir 0),
      ([''opt'', ''helper''], Dir 0),
      ([''opt'', ''helper'', ''temp''], Dir 0),
      ([''opt'', ''helper'', ''temp'', ''old.zip''], Dir 0),
      ([''opt'', ''helper'', ''temp'', ''a.zip''], File 3 ''PK'')]"

text \<open>The same machine with the bucket out of reach, and its store once the run has
  archived \<^verbatim>\<open>run_b\<close>.\<close>

definition ex_offline_env :: "int env" where
  "ex_offline_env = ex_env\<lparr>network_ok := False\<rparr>"

definition ex_archived_disk :: "int filesystem" where
  "ex_archived_disk =
     ex_disk @ [([''opt'', ''helper'', ''temp'', ''backup_20120515-155045.zip''], File 9 ''PK'')]"

text \<open>A configuration whose backup folder is \<^verbatim>\<open>/opt\<close>: the only candidate is the
  directory of the script, with the scratch folder inside it.\<close>

definition ex_nested_cfg :: config where
  "ex_nested_cfg = \<lparr>machine_backup_folder_path = [''opt''], machine_name = ''host1'',
                    wasabi_archive_bucket_name = ''archive''\<rparr>"

text \<open>A small archive format for the examples. A length is written as that many
  \<^verbatim>\<open>1\<close> and a \<^verbatim>\<open>0\<close>; a string is its length and its characters; a file is the
  components of its path and its content; an archive is the number of files and the files.\<close>

definition enc_len :: "nat \<Rightarrow> string" where
  "enc_len n = replicate n CHR ''1'' @ ''0''"

definition enc_str :: "string \<Rightarrow> string" where
  "enc_str s = enc_len (length s) @ s"

definition enc_path :: "path \<Rightarrow> string" where
  "enc_path p = enc_len (length p) @ concat (map enc_str p)"

definition enc_file :: "path \<times> bytes \<Rightarrow> string" where
  "enc_file f = enc_path (fst f) @ enc_str (snd f)"

definition pack :: "'t filesystem \<Rightarrow> bytes" where
  "pack tree = enc_len (length (files_of tree)) @ concat (map enc_file (files_of tree))"

definition dec_len :: "string \<Rightarrow> nat \<times> string" where
  "dec_len s =
     (let n = length (takeWhile (\<lambda>c. c = CHR ''1'') s) in (n, drop (Suc n) s))"

definition dec_str :: "string \<Rightarrow> string \<times> string" where
  "dec_str s = (case dec_len s of (n, r) \<Rightarrow> (take n r, drop n r))"

primrec dec_many :: "(string \<Rightarrow> 'a \<times> string) \<Rightarrow> nat \<Rightarrow> string \<Rightarrow> 'a list \<times> string" where
  "dec_many d 0 s = ([], s)"
| "dec_many d (Suc n) s =
     (case d s of (a, r) \<Rightarrow> (case dec_many d n r of (as, r') \<Rightarrow> (a # as, r')))"

definition dec_path :: "string \<Rightarrow> path \<times> string" where
  "dec_path s = (case dec_len s of (n, r) \<Rightarrow> dec_many dec_str n r)"

definition dec_file :: "string \<Rightarrow> (path \<times> bytes) \<times> string" where
  "dec_file s =
     (case dec_path s of (p, r) \<Rightarrow> (case dec_str r of (c, r') \<Rightarrow> ((p, c), r')))"

definition unpack :: "bytes \<Rightarrow> (path \<times> bytes) list" where
  "unpack s = (case dec_len s of (n, r) \<Rightarrow> fst (dec_many dec_file n r))"

text \<open>The example machine with this format as its encoder.\<close>

definition ex_pack_env :: "int env" where
  "ex_pack_env = ex_env\<lparr>zip_bytes := pack\<rparr>"

section \<open>Properties of the Backup Locator\<close>

lemma latest_loop_keep:
  "\<forall>q\<in>set ps. \<exists>t. getmtime fs q = Inr t \<and> t \<le> nt \<Longrightarrow>
   latest_loop fs ps ret (Some nt) = Inr ret"
  by (induction ps) auto

lemma latest_loop_skip:
  assumes "\<forall>q\<in>set xs. \<exists>t. getmtime fs q = Inr t \<and> t < tp"
    and "getmtime fs p = Inr tp"
    and "newest = None \<or> (\<exists>nt. newest = Some nt \<and> nt < tp)"
  shows "latest_loop fs (xs @ p # ys) ret newest = latest_loop fs ys (Some p) (Some tp)"
  using assms
proof (induction xs arbitrary: ret newest)
  case Nil
  then show ?case by auto
next
  case (Cons x xs)
  from Cons.prems(1) obtain t where t: "getmtime fs x = Inr t" "t < tp" by auto
  have rest: "\<forall>q\<in>set xs. \<exists>t. getmtime fs q = Inr t \<and> t < tp"
    using Cons.prems(1) by simp
  show ?case
  proof (cases newest)
    case None
    have "latest_loop fs (xs @ p # ys) (Some x) (Some t) = latest_loop fs ys (Some p) (Some tp)"
      by (rule Cons.IH [OF rest Cons.prems(2)]) (simp add: t)
    then show ?thesis using None t by simp
  next
    case (Some nt)
    with Cons.prems(3) have nt: "nt < tp" by simp
    have a: "latest_loop fs (xs @ p # ys) (Some x) (Some t) = latest_loop fs ys (Some p) (Some tp)"
      by (rule Cons.IH [OF rest Cons.prems(2)]) (simp add: t)
    have b: "latest_loop fs (xs @ p # ys) ret (Some nt) = latest_loop fs ys (Some p) (Some tp)"
      by (rule Cons.IH [OF rest Cons.prems(2)]) (simp add: nt)
    show ?thesis using Some t a b by simp
  qed
qed

lemma find_latest_first_max:
  assumes "\<forall>q\<in>set xs. \<exists>t. getmtime fs q = Inr t \<and> t < tp"
    and "getmtime fs p = Inr tp"
    and "\<forall>q\<in>set ys. \<exists>t. getmtime fs q = Inr t \<and> t \<le> tp"
  shows "find_latest_modified_directory fs (xs @ p # ys) = Inr (Some p)"
  unfolding find_latest_modified_directory_def
  using latest_loop_skip [OF assms(1,2), of None ys None] latest_loop_keep [OF assms(3)]
  by simp

lemma latest_loop_not_None:
  "ret \<noteq> None \<Longrightarrow> latest_loop fs ps ret newest \<noteq> Inr None"
  by (induction ps arbitrary: ret newest) (auto split: sum.splits option.splits)

lemma latest_loop_member:
  "\<forall>q\<in>set ps. map_of fs q \<noteq> None \<Longrightarrow>
   \<exists>r. latest_loop fs ps ret newest = Inr r \<and> (r = ret \<or> (\<exists>p\<in>set ps. r = Some p))"
proof (induction ps arbitrary: ret newest)
  case Nil
  then show ?case by simp
next
  case (Cons p ps)
  then obtain n where n: "map_of fs p = Some n" by auto
  have rest: "\<forall>q\<in>set ps. map_of fs q \<noteq> None" using Cons.prems by simp
  from Cons.IH [OF rest, of "Some p" "Some (mtime n)"] Cons.IH [OF rest, of ret newest]
  show ?case using n by (auto simp: getmtime_def split: option.splits)
qed

lemma latest_loop_missing:
  "p \<in> set ps \<Longrightarrow> map_of fs p = None \<Longrightarrow>
   \<exists>q\<in>set ps. latest_loop fs ps ret newest = Inl (FileNotFoundError q)"
proof (induction ps arbitrary: ret newest)
  case Nil
  then show ?case by simp
next
  case (Cons a ps)
  show ?case
  proof (cases "map_of fs a")
    case None
    then show ?thesis by (simp add: getmtime_def)
  next
    case (Some n)
    with Cons.prems have "p \<in> set ps" by auto
    from Cons.IH [OF this Cons.prems(2)] show ?thesis
      using Some by (auto simp: getmtime_def split: option.splits)
  qed
qed

lemma getmtime_entry:
  "wf_fs fs \<Longrightarrow> (p, n) \<in> set fs \<Longrightarrow> getmtime fs p = Inr (mtime n)"
  by (simp add: wf_fs_def getmtime_def)

lemma scandir_subset:
  "scandir fs parent = Inr entries \<Longrightarrow> set entries \<subseteq> set fs"
  by (auto simp: scandir_def children_def split: option.splits node.splits)

lemma find_backup_folder_first_max:
  assumes wf: "wf_fs fs"
    and scan: "scandir fs (machine_backup_folder_path cfg) = Inr entries"
    and sp: "filter (\<lambda>f. is_dir (snd f)) entries = xs @ (d, n) # ys"
    and before: "\<forall>e\<in>set xs. mtime (snd e) < mtime n"
    and after: "\<forall>e\<in>set ys. mtime (snd e) \<le> mtime n"
  shows "find_backup_folder cfg fs = Inr (Some d)"
proof -
  have "set (xs @ (d, n) # ys) \<subseteq> set entries"
    unfolding sp [symmetric] by simp
  then have sub: "set (xs @ (d, n) # ys) \<subseteq> set fs"
    using scandir_subset [OF scan] by (rule subset_trans)
  have gm: "getmtime fs q = Inr (mtime m)" if "(q, m) \<in> set (xs @ (d, n) # ys)" for q m
    using getmtime_entry [OF wf] sub that by blast
  have a: "\<forall>q\<in>set (map fst xs). \<exists>t. getmtime fs q = Inr t \<and> t < mtime n"
  proof
    fix q assume "q \<in> set (map fst xs)"
    then obtain m where m: "(q, m) \<in> set xs" by auto
    then have "getmtime fs q = Inr (mtime m)" by (simp add: gm)
    moreover have "mtime m < mtime n" using before m by force
    ultimately show "\<exists>t. getmtime fs q = Inr t \<and> t < mtime n" by blast
  qed
  have b: "getmtime fs d = Inr (mtime n)"
    by (rule gm) simp
  have c: "\<forall>q\<in>set (map fst ys). \<exists>t. getmtime fs q = Inr t \<and> t \<le> mtime n"
  proof
    fix q assume "q \<in> set (map fst ys)"
    then obtain m where m: "(q, m) \<in> set ys" by auto
    then have "getmtime fs q = Inr (mtime m)" by (simp add: gm)
    moreover have "mtime m \<le> mtime n" using after m by force
    ultimately show "\<exists>t. getmtime fs q = Inr t \<and> t \<le> mtime n" by blast
  qed
  have "find_latest_modified_directory fs (map fst xs @ d # map fst ys) = Inr (Some d)"
    by (rule find_latest_first_max [OF a b c])
  then show ?thesis
    by (simp add: find_backup_folder_def scan sp)
qed

lemma find_backup_folder_not_None: "find_backup_folder cfg fs \<noteq> Inr None"
proof (cases "scandir fs (machine_backup_folder_path cfg)")
  case (Inl e)
  then show ?thesis by (simp add: find_backup_folder_def)
next
  case (Inr entries)
  show ?thesis
  proof (cases "map fst (filter (\<lambda>f. is_dir (snd f)) entries)")
    case Nil
    then show ?thesis using Inr by (simp add: find_backup_folder_def)
  next
    case (Cons p ps)
    have "latest_loop fs (p # ps) None None \<noteq> Inr None"
      using latest_loop_not_None [of "Some p" fs ps] by (simp split: sum.splits)
    then show ?thesis using Inr Cons
      by (simp add: find_backup_folder_def find_latest_modified_directory_def del: latest_loop.simps)
  qed
qed

lemmas ex_defs = ex_cfg_def ex_env_def ex_disk_def ex_world_def

lemmas fs_defs = wf_fs_def getmtime_def child_of_def children_def scandir_def

text \<open>
  Claim C1. When the immediate subdirectories of the parent directory have pairwise
  distinct modification times, the Locator returns exactly the subdirectory \<open>d\<close> whose
  modification time is the greatest. Only the entries that are directories count: a file
  among the entries may be newer than \<open>d\<close>.
\<close>

theorem locator_returns_maximum:
  fixes fs :: "('t::linorder) filesystem"
  assumes "wf_fs fs"
    and "scandir fs (machine_backup_folder_path cfg) = Inr entries"
    and "distinct (map (\<lambda>f. mtime (snd f)) (filter (\<lambda>f. is_dir (snd f)) entries))"
    and "(d, n) \<in> set entries" and "is_dir n"
    and "\<forall>f\<in>set entries. is_dir (snd f) \<longrightarrow> mtime (snd f) \<le> mtime n"
  shows "find_backup_folder cfg fs = Inr (Some d)"
proof -
  let ?dirs = "filter (\<lambda>f. is_dir (snd f)) entries"
  have "(d, n) \<in> set ?dirs" using assms(4,5) by simp
  then obtain xs ys where sp: "?dirs = xs @ (d, n) # ys"
    by (auto simp: in_set_conv_decomp)
  have dist: "distinct (map (\<lambda>f. mtime (snd f)) (xs @ (d, n) # ys))"
    using assms(3) sp by simp
  have "\<forall>e\<in>set ?dirs. mtime (snd e) \<le> mtime n"
    using assms(6) by simp
  then have le: "\<forall>e\<in>set (xs @ (d, n) # ys). mtime (snd e) \<le> mtime n"
    by (simp only: sp)
  have before: "\<forall>e\<in>set xs. mtime (snd e) < mtime n"
  proof
    fix e assume e: "e \<in> set xs"
    then have "mtime (snd e) \<in> (\<lambda>f. mtime (snd f)) ` set xs" by (rule imageI)
    moreover have "mtime n \<notin> (\<lambda>f. mtime (snd f)) ` set xs" using dist by simp
    ultimately have "mtime (snd e) \<noteq> mtime n" by metis
    moreover have "mtime (snd e) \<le> mtime n" using le e by simp
    ultimately show "mtime (snd e) < mtime n" by simp
  qed
  have after: "\<forall>e\<in>set ys. mtime (snd e) \<le> mtime n"
    using le by simp
  show ?thesis
    by (rule find_backup_folder_first_max [OF assms(1,2) sp before after])
qed

theorem locator_returns_maximum_witness:
  "find_backup_folder ex_cfg ex_disk = Inr (Some [''data'', ''backups'', ''run_b''])"
proof -
  let ?entries = "[([''data'', ''backups'', ''run_a''], Dir 1),
                   ([''data'', ''backups'', ''notes.txt''], File 7 ''n''),
                   ([''data'', ''backups'', ''run_b''], Dir (2::int))]"
  have h1: "wf_fs ex_disk"
    by (simp add: wf_fs_def ex_disk_def)
  have h2: "scandir ex_disk (machine_backup_folder_path ex_cfg) = Inr ?entries"
    by (simp add: fs_defs ex_cfg_def ex_disk_def)
  have h3: "distinct (map (\<lambda>f. mtime (snd f)) (filter (\<lambda>f. is_dir (snd f)) ?entries))"
    by simp
  have h4: "([''data'', ''backups'', ''run_b''], Dir 2) \<in> set ?entries"
    by simp
  have h5: "is_dir (Dir (2::int))"
    by simp
  have h6: "\<forall>f\<in>set ?entries. is_dir (snd f) \<longrightarrow> mtime (snd f) \<le> mtime (Dir (2::int))"
    by simp
  show ?thesis
    by (rule locator_returns_maximum [OF h1 h2 h3 h4 h5 h6])
qed

text \<open>
  Claim C2. When the enumeration of the parent directory yields no subdirectory, the
  Locator raises the exception "Failed to find any backup folders" (the
  \<open>NoCandidatesError\<close> of the specification) and returns no path.
\<close>

theorem locator_no_candidates:
  assumes "scandir fs (machine_backup_folder_path cfg) = Inr entries"
    and "filter (\<lambda>f. is_dir (snd f)) entries = []"
  shows "find_backup_folder cfg fs = Inl (NoBackupFolders (machine_backup_folder_path cfg))"
  using assms by (simp add: find_backup_folder_def)

theorem locator_no_candidates_witness:
  "find_backup_folder ex_cfg ex_files_only_disk = Inl (NoBackupFolders [''data'', ''backups''])"
proof -
  let ?entries = "[([''data'', ''backups'', ''notes.txt''], File (7::int) ''n'')]"
  have h1: "scandir ex_files_only_disk (machine_backup_folder_path ex_cfg) = Inr ?entries"
    by (simp add: fs_defs ex_cfg_def ex_files_only_disk_def)
  have h2: "filter (\<lambda>f. is_dir (snd f)) ?entries = []"
    by simp
  show ?thesis
    using locator_no_candidates [OF h1 h2] by (simp add: ex_cfg_def)
qed

text \<open>
  Claim C9. When several candidates share the greatest modification time, the Locator
  selects the one the scan meets first: \<open>d\<close> is returned when every candidate before it
  is strictly older and no candidate after it is newer. The result is one path.
\<close>

theorem locator_tie_first:
  fixes fs :: "('t::linorder) filesystem"
  assumes "wf_fs fs"
    and "scandir fs (machine_backup_folder_path cfg) = Inr entries"
    and "filter (\<lambda>f. is_dir (snd f)) entries = xs @ (d, n) # ys"
    and "\<forall>e\<in>set xs. mtime (snd e) < mtime n"
    and "\<forall>e\<in>set ys. mtime (snd e) \<le> mtime n"
  shows "find_backup_folder cfg fs = Inr (Some d)"
  by (rule find_backup_folder_first_max [OF assms])

theorem locator_tie_first_witness:
  "find_backup_folder ex_cfg ex_tie_disk = Inr (Some [''data'', ''backups'', ''run_b''])"
proof -
  let ?xs = "[([''data'', ''backups'', ''run_a''], Dir (1::int))]"
  let ?ys = "[([''data'', ''backups'', ''run_c''], Dir (5::int))]"
  let ?entries = "?xs @ ([''data'', ''backups'', ''run_b''], Dir 5) # ?ys"
  have h1: "wf_fs ex_tie_disk"
    by (simp add: wf_fs_def ex_tie_disk_def)
  have h2: "scandir ex_tie_disk (machine_backup_folder_path ex_cfg) = Inr ?entries"
    by (simp add: fs_defs ex_cfg_def ex_tie_disk_def)
  have h3: "filter (\<lambda>f. is_dir (snd f)) ?entries = ?xs @ ([''data'', ''backups'', ''run_b''], Dir 5) # ?ys"
    by simp
  have h4: "\<forall>e\<in>set ?xs. mtime (snd e) < mtime (Dir (5::int))"
    by simp
  have h5: "\<forall>e\<in>set ?ys. mtime (snd e) \<le> mtime (Dir (5::int))"
    by simp
  show ?thesis
    by (rule locator_tie_first [OF h1 h2 h3 h4 h5])
qed

text \<open>
  Claim C10. \<^verbatim>\<open>find_latest_modified_directory\<close> returns \<open>None\<close> on the empty list and
  an element of the list on a non-empty list of paths that all exist; on a list with a
  path that does not exist it raises \<open>FileNotFoundError\<close>, as the last theorem
  below shows on an example. \<^verbatim>\<open>find_backup_folder\<close> never returns \<open>None\<close>.
\<close>

theorem find_latest_total_on_existing:
  fixes fs :: "('t::linorder) filesystem"
  shows "find_latest_modified_directory fs [] = Inr None
    \<and> (paths \<noteq> [] \<and> (\<forall>q\<in>set paths. map_of fs q \<noteq> None) \<longrightarrow>
         (\<exists>p\<in>set paths. find_latest_modified_directory fs paths = Inr (Some p)))
    \<and> ((\<exists>q\<in>set paths. map_of fs q = None) \<longrightarrow>
         (\<exists>p\<in>set paths. find_latest_modified_directory fs paths = Inl (FileNotFoundError p)))
    \<and> find_backup_folder cfg fs \<noteq> Inr None"
proof (intro conjI impI)
  show "find_latest_modified_directory fs [] = Inr None"
    by (simp add: find_latest_modified_directory_def)
  show "find_backup_folder cfg fs \<noteq> Inr None"
    by (rule find_backup_folder_not_None)
  show "\<exists>p\<in>set paths. find_latest_modified_directory fs paths = Inl (FileNotFoundError p)"
    if "\<exists>q\<in>set paths. map_of fs q = None"
  proof -
    from that obtain q where "q \<in> set paths" "map_of fs q = None" by blast
    then show ?thesis
      unfolding find_latest_modified_directory_def by (rule latest_loop_missing)
  qed
  show "\<exists>p\<in>set paths. find_latest_modified_directory fs paths = Inr (Some p)"
    if h: "paths \<noteq> [] \<and> (\<forall>q\<in>set paths. map_of fs q \<noteq> None)"
  proof -
    obtain p ps where ps: "paths = p # ps" using h by (cases paths) auto
    then obtain n where n: "map_of fs p = Some n" using h by auto
    have "\<forall>q\<in>set ps. map_of fs q \<noteq> None" using h ps by simp
    from latest_loop_member [OF this, of "Some p" "Some (mtime n)"]
    show ?thesis
      by (auto simp: find_latest_modified_directory_def ps getmtime_def n)
  qed
qed

theorem find_latest_total_on_existing_witness:
  "find_latest_modified_directory ex_disk [] = Inr None
   \<and> (find_latest_modified_directory ex_disk
         [[''data'', ''backups'', ''run_a''], [''data'', ''backups'', ''run_b'']]
         = Inr (Some [''data'', ''backups'', ''run_a''])
       \<or> find_latest_modified_directory ex_disk
         [[''data'', ''backups'', ''run_a''], [''data'', ''backups'', ''run_b'']]
         = Inr (Some [''data'', ''backups'', ''run_b'']))
   \<and> find_latest_modified_directory ex_disk [[''data'', ''backups'', ''gone'']]
       = Inl (FileNotFoundError [''data'', ''backups'', ''gone''])
   \<and> find_backup_folder ex_cfg ex_disk \<noteq> Inr None"
proof -
  let ?ps = "[[''data'', ''backups'', ''run_a''], [''data'', ''backups'', ''run_b'']]"
  have a: "?ps \<noteq> [] \<and> (\<forall>q\<in>set ?ps. map_of ex_disk q \<noteq> None)"
    by (simp add: ex_disk_def)
  have b: "\<exists>q\<in>set [[''data'', ''backups'', ''gone'']]. map_of ex_disk q = None"
    by (simp add: ex_disk_def)
  show ?thesis
    using a b find_latest_total_on_existing [of ex_disk ?ps ex_cfg]
      find_latest_total_on_existing [of ex_disk "[[''data'', ''backups'', ''gone'']]" ex_cfg]
    by simp
qed

theorem find_latest_raises_on_missing_path:
  "find_latest_modified_directory ex_disk
     [[''data'', ''backups'', ''run_a''], [''data'', ''backups'', ''gone'']]
   = Inl (FileNotFoundError [''data'', ''backups'', ''gone''])"
  by (simp add: find_latest_modified_directory_def getmtime_def ex_disk_def)

section \<open>Properties of the cleanup\<close>

lemma map_of_filter_key:
  "P k \<Longrightarrow> map_of (filter (\<lambda>e. P (fst e)) fs) k = map_of fs k"
  by (induction fs) auto

lemma child_of_join: "child_of t q \<Longrightarrow> t @ [last q] = q"
  by (auto simp: child_of_def)

lemma remove_loop_files:
  assumes "distinct qs"
    and "\<forall>q\<in>set qs. child_of t q \<and> (\<exists>tm c. map_of fs q = Some (File tm c))"
  shows "remove_loop t (map last qs) fs = (None, filter (\<lambda>e. fst e \<notin> set qs) fs)"
  using assms
proof (induction qs arbitrary: fs)
  case Nil
  then show ?case by simp
next
  case (Cons q qs)
  let ?fs' = "filter (\<lambda>e. fst e \<noteq> q) fs"
  from Cons.prems obtain tm c where q: "child_of t q" "map_of fs q = Some (File tm c)"
    by auto
  have rm: "os_remove fs (t @ [last q]) = Inr ?fs'"
    by (simp add: os_remove_def child_of_join [OF q(1)] q(2))
  have keep: "\<forall>r\<in>set qs. child_of t r \<and> (\<exists>tm c. map_of ?fs' r = Some (File tm c))"
  proof
    fix r assume r: "r \<in> set qs"
    then have "r \<noteq> q" using Cons.prems(1) by auto
    then have "map_of ?fs' r = map_of fs r"
      by (rule map_of_filter_key [of "\<lambda>k. k \<noteq> q"])
    then show "child_of t r \<and> (\<exists>tm c. map_of ?fs' r = Some (File tm c))"
      using Cons.prems(2) r by simp
  qed
  have "distinct qs" using Cons.prems(1) by simp
  from Cons.IH [OF this keep]
  have "remove_loop t (map last qs) ?fs' = (None, filter (\<lambda>e. fst e \<notin> set qs) ?fs')" .
  moreover have "filter (\<lambda>e. fst e \<notin> set qs) ?fs' = filter (\<lambda>e. fst e \<notin> set (q # qs)) fs"
    by (induction fs) auto
  ultimately show ?case using rm by simp
qed

lemma scandir_children:
  "scandir fs d = Inr entries \<Longrightarrow> entries = children fs d"
  by (auto simp: scandir_def split: option.splits node.splits)

text \<open>
  Claim C4. When no entry of the scratch directory whose name ends in \<^verbatim>\<open>.zip\<close> is a
  directory, the sweep ends normally and the store it leaves is the store it found
  without the entries of the scratch directory whose names end in \<^verbatim>\<open>.zip\<close>: each
  such file is gone, whichever run made it, and every other entry, in the scratch
  directory or elsewhere, is as it was, in the same order. The last theorem below
  shows a scratch directory with a subdirectory named \<^verbatim>\<open>old.zip\<close>: \<^verbatim>\<open>os.remove\<close>
  raises on it and the archive \<^verbatim>\<open>a.zip\<close> listed after it stays.
\<close>

theorem clean_temp_folder_sweeps_zip_files:
  assumes wf: "wf_fs fs"
    and scan: "scandir fs (build_local_path e TEMP_DIR_NAME) = Inr entries"
    and files: "\<forall>f\<in>set entries. endswith (last (fst f)) ''.zip'' \<longrightarrow> \<not> is_dir (snd f)"
  shows "clean_temp_folder e fs =
           (None, filter (\<lambda>f. \<not> (child_of (build_local_path e TEMP_DIR_NAME) (fst f)
                                   \<and> endswith (last (fst f)) ''.zip'')) fs)"
proof -
  let ?t = "build_local_path e TEMP_DIR_NAME"
  let ?zip = "\<lambda>f. endswith (last (fst f)) ''.zip''"
  let ?qs = "map fst (filter ?zip entries)"
  have entries: "entries = filter (\<lambda>f. child_of ?t (fst f)) fs"
    using scandir_children [OF scan] by (simp add: children_def)
  have names: "filter (\<lambda>f. endswith f ''.zip'') (map (\<lambda>f. last (fst f)) entries) = map last ?qs"
    by (simp add: filter_map comp_def)
  have dist: "distinct ?qs"
    using wf unfolding entries wf_fs_def by (simp add: distinct_map_filter)
  have each: "\<forall>q\<in>set ?qs. child_of ?t q \<and> (\<exists>tm c. map_of fs q = Some (File tm c))"
  proof
    fix q assume "q \<in> set ?qs"
    then obtain n where n: "(q, n) \<in> set entries" "endswith (last q) ''.zip''"
      by auto
    then have "\<not> is_dir n" using files by force
    then obtain tm c where "n = File tm c" by (cases n) auto
    moreover have "(q, n) \<in> set fs" "child_of ?t q"
      using n(1) unfolding entries by auto
    ultimately show "child_of ?t q \<and> (\<exists>tm c. map_of fs q = Some (File tm c))"
      using wf by (auto simp: wf_fs_def)
  qed
  have loop: "remove_loop ?t (map last ?qs) fs = (None, filter (\<lambda>f. fst f \<notin> set ?qs) fs)"
    by (rule remove_loop_files [OF dist each])
  have same: "filter (\<lambda>f. fst f \<notin> set ?qs) fs = filter (\<lambda>f. \<not> (child_of ?t (fst f) \<and> ?zip f)) fs"
  proof (rule filter_cong [OF refl])
    fix f assume f: "f \<in> set fs"
    have "fst f \<in> set ?qs \<longleftrightarrow> child_of ?t (fst f) \<and> ?zip f"
    proof
      assume "fst f \<in> set ?qs"
      then obtain g where "g \<in> set entries" "?zip g" "fst g = fst f" by auto
      then show "child_of ?t (fst f) \<and> ?zip f" unfolding entries by auto
    next
      assume "child_of ?t (fst f) \<and> ?zip f"
      then have "f \<in> set (filter ?zip entries)" using f unfolding entries by simp
      then show "fst f \<in> set ?qs" by (simp only: set_map) (rule imageI)
    qed
    then show "(fst f \<notin> set ?qs) = (\<not> (child_of ?t (fst f) \<and> ?zip f))" by simp
  qed
  have "clean_temp_folder e fs = remove_loop ?t (map last ?qs) fs"
    by (simp only: clean_temp_folder_def listdir_def scan Let_def sum.case names)
  also have "\<dots> = (None, filter (\<lambda>f. fst f \<notin> set ?qs) fs)"
    by (rule loop)
  finally show ?thesis
    by (simp only: same)
qed

theorem clean_temp_folder_sweeps_zip_files_witness:
  "clean_temp_folder ex_env ex_disk =
     (None,
      [([''data''], Dir 0),
       ([''data'', ''backups''], Dir 0),
       ([''data'', ''backups'', ''run_a''], Dir 1),
       ([''data'', ''backups'', ''notes.txt''], File 7 ''n''),
       ([''data'', ''backups'', ''run_b''], Dir 2),
       ([''data'', ''backups'', ''run_b'', ''db.sql''], File 2 ''rows''),
       ([''opt''], Dir 0),
       ([''opt'', ''helper''], Dir 0),
       ([''opt'', ''helper'', ''temp''], Dir 0),
       ([''opt'', ''helper'', ''temp'', ''keep.txt''], File 0 ''k'')])"
proof -
  let ?entries = "[([''opt'', ''helper'', ''temp'', ''old.zip''], File (0::int) ''PK-old''),
                   ([''opt'', ''helper'', ''temp'', ''keep.txt''], File 0 ''k'')]"
  have h1: "wf_fs ex_disk"
    by (simp add: wf_fs_def ex_disk_def)
  have h2: "scandir ex_disk (build_local_path ex_env TEMP_DIR_NAME) = Inr ?entries"
    by (simp add: fs_defs build_local_path_def TEMP_DIR_NAME_def ex_env_def ex_disk_def)
  have h3: "\<forall>f\<in>set ?entries. endswith (last (fst f)) ''.zip'' \<longrightarrow> \<not> is_dir (snd f)"
    by simp
  show ?thesis
    using clean_temp_folder_sweeps_zip_files [OF h1 h2 h3]
    by (simp add: child_of_def endswith_def suffix_to_prefix build_local_path_def
        TEMP_DIR_NAME_def ex_env_def ex_disk_def)
qed

theorem clean_temp_folder_stops_at_zip_directory:
  "clean_temp_folder ex_env ex_zipdir_disk =
     (Some (IsADirectoryError [''opt'', ''helper'', ''temp'', ''old.zip'']), ex_zipdir_disk)
   \<and> map_of (snd (clean_temp_folder ex_env ex_zipdir_disk)) [''opt'', ''helper'', ''temp'', ''a.zip'']
       = Some (File 3 ''PK'')"
  by (simp add: clean_temp_folder_def listdir_def fs_defs os_remove_def endswith_def
      suffix_to_prefix build_local_path_def TEMP_DIR_NAME_def ex_env_def ex_zipdir_disk_def)

section \<open>Properties of the run\<close>

lemma map_of_store: "map_of (store p n fs) = (map_of fs)(p \<mapsto> n)"
  by (induction fs) (auto simp: fun_eq_iff)

lemma add_suffix_snoc: "add_suffix (t @ [b]) ext = t @ [b @ ext]"
  by (simp add: add_suffix_def)

lemma setup_temp_folder_exists:
  "map_of (setup_temp_folder e fs) (build_local_path e TEMP_DIR_NAME) \<noteq> None"
  by (simp add: setup_temp_folder_def create_directory_def map_add_def)

lemma create_directory_existing:
  "map_of fs d \<noteq> None \<Longrightarrow> create_directory fs now d = fs"
  by (simp add: create_directory_def)

lemma store_store: "store p n (store p m fs) = store p n fs"
  by (induction fs) auto

lemma make_archive_unfold:
  assumes "make_archive e fs base (Some root) = Inr fs2"
  shows "\<exists>tm. map_of fs root = Some (Dir tm)"
    and "\<forall>tm. map_of (create_directory fs (clock e) (butlast (add_suffix base ''.zip'')))
                 (add_suffix base ''.zip'') \<noteq> Some (Dir tm)"
    and "fs2 = store (add_suffix base ''.zip'')
                 (File (clock e)
                    (zip_bytes e
                       (subtree
                          (store (add_suffix base ''.zip'') (File (clock e) (zip_partial e))
                             (create_directory fs (clock e) (butlast (add_suffix base ''.zip''))))
                          root)))
                 (create_directory fs (clock e) (butlast (add_suffix base ''.zip'')))"
  using assms
  by (auto simp: make_archive_def write_file_def Let_def store_store
      split: option.splits node.splits sum.splits)

lemma make_archive_result:
  assumes "make_archive e fs (t @ [b]) (Some src) = Inr fs2"
  shows "\<exists>tm. map_of fs src = Some (Dir tm)"
    and "\<exists>data. fs2 = store (t @ [b @ ''.zip'']) (File (clock e) data)
                         (create_directory fs (clock e) t)"
    and "\<forall>tm. map_of (create_directory fs (clock e) t) (t @ [b @ ''.zip'']) \<noteq> Some (Dir tm)"
proof -
  note u = make_archive_unfold [OF assms]
  show "\<exists>tm. map_of fs src = Some (Dir tm)" by (rule u(1))
  show "\<forall>tm. map_of (create_directory fs (clock e) t) (t @ [b @ ''.zip'']) \<noteq> Some (Dir tm)"
    using u(2) by (simp add: add_suffix_snoc)
  show "\<exists>data. fs2 = store (t @ [b @ ''.zip'']) (File (clock e) data)
                         (create_directory fs (clock e) t)"
    using u(3) unfolding add_suffix_snoc butlast_snoc by (intro exI)
qed

lemma upload_zipped_folder_returns:
  assumes "upload_zipped_folder e cfg w b zp = Inr w3"
  shows "network_ok e" and "disk w3 = disk w" and "trash w3 = trash w"
    and "\<exists>data. read_file (disk w) zp = Inr data
           \<and> bucket w3 = (bucket w)((wasabi_archive_bucket_name cfg, s3_key cfg b) \<mapsto> data)"
  using assms
  by (auto simp: upload_zipped_folder_def Let_def split: sum.splits if_splits)

lemma upload_zipped_folder_raises:
  "upload_zipped_folder e cfg w b zp = Inl err \<Longrightarrow>
   read_file (disk w) zp = Inl err \<or> (\<not> network_ok e \<and> err = S3UploadFailedError)"
  by (auto simp: upload_zipped_folder_def Let_def split: sum.splits if_splits)

lemma send2trash_bucket:
  "send2trash w p = Inr w' \<Longrightarrow> bucket w' = bucket w"
  by (auto simp: send2trash_def split: option.splits)

lemma cleanup_bucket:
  "bucket (snd (cleanup e T w bp)) = bucket w"
  by (auto simp: cleanup_def trash_backup_folder_def split: prod.splits option.splits sum.splits
      dest: send2trash_bucket)

lemma cleanup_trash:
  "trash (snd (cleanup e T w bp)) \<noteq> trash w \<Longrightarrow> T"
  by (auto simp: cleanup_def split: prod.splits option.splits sum.splits if_splits)

lemma cleanup_no_trash:
  "cleanup e False w bp = (fst (clean_temp_folder e (disk w)), w\<lparr>disk := snd (clean_temp_folder e (disk w))\<rparr>)"
  by (auto simp: cleanup_def split: prod.splits option.splits)

lemma main_cases:
  fixes e :: "('t::linorder) env" and w0 :: "'t world"
  defines "fs1 \<equiv> setup_temp_folder e (disk w0)"
  defines "tzp \<equiv> build_local_path e TEMP_DIR_NAME @ [create_backup_name e]"
  obtains (locate) err where
      "find_backup_folder cfg fs1 = Inl err"
      "main e cfg T w0 = (Some err, w0\<lparr>disk := fs1\<rparr>)"
    | (archive) src err where
      "find_backup_folder cfg fs1 = Inr src"
      "make_archive e fs1 tzp src = Inl err"
      "main e cfg T w0 = (Some err, w0\<lparr>disk := fs1\<rparr>)"
    | (upload) src fs2 err where
      "find_backup_folder cfg fs1 = Inr src"
      "make_archive e fs1 tzp src = Inr fs2"
      "upload_zipped_folder e cfg (w0\<lparr>disk := fs2\<rparr>) (create_backup_name e) (add_suffix tzp ''.zip'') = Inl err"
      "main e cfg T w0 = (Some err, w0\<lparr>disk := fs2\<rparr>)"
    | (cleanup) src fs2 w3 where
      "find_backup_folder cfg fs1 = Inr src"
      "make_archive e fs1 tzp src = Inr fs2"
      "upload_zipped_folder e cfg (w0\<lparr>disk := fs2\<rparr>) (create_backup_name e) (add_suffix tzp ''.zip'') = Inr w3"
      "main e cfg T w0 = cleanup e T w3 src"
proof (cases "find_backup_folder cfg fs1")
  case (Inl err)
  then show ?thesis
    by (intro locate [of err]) (simp_all add: main_def fs1_def)
next
  case src: (Inr src)
  show ?thesis
  proof (cases "make_archive e fs1 tzp src")
    case (Inl err)
    then show ?thesis using src
      by (intro archive [of src err]) (simp_all add: main_def fs1_def tzp_def Let_def)
  next
    case fs2: (Inr fs2)
    show ?thesis
    proof (cases "upload_zipped_folder e cfg (w0\<lparr>disk := fs2\<rparr>) (create_backup_name e) (add_suffix tzp ''.zip'')")
      case (Inl err)
      then show ?thesis using src fs2
        by (intro upload [of src fs2 err]) (simp_all add: main_def fs1_def tzp_def Let_def)
    next
      case (Inr w3)
      then show ?thesis using src fs2
        by (intro cleanup [of src fs2 w3]) (simp_all add: main_def fs1_def tzp_def Let_def)
    qed
  qed
qed

lemma upload_failure_state:
  fixes e :: "('t::linorder) env"
  assumes loc: "find_backup_folder cfg (setup_temp_folder e (disk w0)) = Inr (Some src)"
    and arch: "make_archive e (setup_temp_folder e (disk w0))
                 (build_local_path e TEMP_DIR_NAME @ [create_backup_name e]) (Some src) = Inr fs2"
    and up: "upload_zipped_folder e cfg (w0\<lparr>disk := fs2\<rparr>) (create_backup_name e)
               (add_suffix (build_local_path e TEMP_DIR_NAME @ [create_backup_name e]) ''.zip'') = Inl err"
  shows "main e cfg T w0 = (Some err, w0\<lparr>disk := fs2\<rparr>)"
    and "\<exists>data. map_of fs2 (build_local_path e TEMP_DIR_NAME @ [create_backup_name e @ ''.zip''])
           = Some (File (clock e) data)"
    and "\<exists>t. map_of fs2 src = Some (Dir t)"
proof -
  let ?fs1 = "setup_temp_folder e (disk w0)"
  let ?t = "build_local_path e TEMP_DIR_NAME"
  let ?zp = "?t @ [create_backup_name e @ ''.zip'']"
  show "main e cfg T w0 = (Some err, w0\<lparr>disk := fs2\<rparr>)"
    using loc arch up by (simp add: main_def Let_def)
  have cd: "create_directory ?fs1 (clock e) ?t = ?fs1"
    by (rule create_directory_existing [OF setup_temp_folder_exists])
  from make_archive_result [OF arch] cd
  obtain tm data where src: "map_of ?fs1 src = Some (Dir tm)"
    and fs2: "fs2 = store ?zp (File (clock e) data) ?fs1"
    and nodir: "map_of ?fs1 ?zp \<noteq> Some (Dir tm)"
    by auto
  show "\<exists>data. map_of fs2 ?zp = Some (File (clock e) data)"
    by (simp add: fs2 map_of_store)
  have "?zp \<noteq> src" using src nodir by auto
  then show "\<exists>t. map_of fs2 src = Some (Dir t)"
    by (simp add: fs2 map_of_store src)
qed

lemma trash_needs_upload:
  fixes e :: "('t::linorder) env"
  assumes "trash (snd (main e cfg T w0)) \<noteq> trash w0"
  shows "T" and "network_ok e"
    and "\<exists>data. bucket (snd (main e cfg T w0))
           (wasabi_archive_bucket_name cfg, s3_key cfg (create_backup_name e)) = Some data"
proof -
  have "T \<and> network_ok e \<and> (\<exists>data. bucket (snd (main e cfg T w0))
           (wasabi_archive_bucket_name cfg, s3_key cfg (create_backup_name e)) = Some data)"
  proof (cases rule: main_cases [of cfg e w0 T])
    case (locate err)
    then show ?thesis using assms by simp
  next
    case (archive src err)
    then show ?thesis using assms by simp
  next
    case (upload src fs2 err)
    then show ?thesis using assms by simp
  next
    case (cleanup src fs2 w3)
    note up = upload_zipped_folder_returns [OF cleanup(3)]
    have "trash (snd (cleanup e T w3 src)) \<noteq> trash w3"
      using assms cleanup(4) up(3) by simp
    then have "T" by (rule cleanup_trash)
    moreover have "bucket (snd (main e cfg T w0)) = bucket w3"
      by (simp add: cleanup(4) cleanup_bucket)
    ultimately show ?thesis using up(1,4) by auto
  qed
  then show "T" and "network_ok e"
    and "\<exists>data. bucket (snd (main e cfg T w0))
           (wasabi_archive_bucket_name cfg, s3_key cfg (create_backup_name e)) = Some data"
    by blast+
qed

text \<open>
  Claim C5. When the Locator has selected \<open>src\<close>, the Archiver has left the store
  \<open>fs2\<close> and the upload step raises \<open>err\<close>, the run ends with \<open>err\<close> in exactly the
  state the Archiver left: the cleanup has not run, the archive of this run is still in
  the scratch directory, \<open>src\<close> is still a directory of the store and nothing has been
  added to the trash. For every run: when the trash holds something new at the end, the
  trash flag was set and the upload had returned, leaving the object in the bucket.
\<close>

theorem upload_failure_skips_cleanup:
  fixes e :: "('t::linorder) env"
  shows "(find_backup_folder cfg (setup_temp_folder e (disk w0)) = Inr (Some src)
      \<and> make_archive e (setup_temp_folder e (disk w0))
           (build_local_path e TEMP_DIR_NAME @ [create_backup_name e]) (Some src) = Inr fs2
      \<and> upload_zipped_folder e cfg (w0\<lparr>disk := fs2\<rparr>) (create_backup_name e)
           (add_suffix (build_local_path e TEMP_DIR_NAME @ [create_backup_name e]) ''.zip'') = Inl err
      \<longrightarrow> main e cfg T w0 = (Some err, w0\<lparr>disk := fs2\<rparr>)
        \<and> (\<exists>data. map_of fs2 (build_local_path e TEMP_DIR_NAME @ [create_backup_name e @ ''.zip''])
              = Some (File (clock e) data))
        \<and> (\<exists>t. map_of fs2 src = Some (Dir t))
        \<and> trash (snd (main e cfg T w0)) = trash w0)
    \<and> (trash (snd (main e cfg T w0)) \<noteq> trash w0
      \<longrightarrow> T \<and> network_ok e
        \<and> (\<exists>data. bucket (snd (main e cfg T w0))
              (wasabi_archive_bucket_name cfg, s3_key cfg (create_backup_name e)) = Some data))"
proof (intro conjI impI)
  assume h: "find_backup_folder cfg (setup_temp_folder e (disk w0)) = Inr (Some src)
      \<and> make_archive e (setup_temp_folder e (disk w0))
           (build_local_path e TEMP_DIR_NAME @ [create_backup_name e]) (Some src) = Inr fs2
      \<and> upload_zipped_folder e cfg (w0\<lparr>disk := fs2\<rparr>) (create_backup_name e)
           (add_suffix (build_local_path e TEMP_DIR_NAME @ [create_backup_name e]) ''.zip'') = Inl err"
  then have loc: "find_backup_folder cfg (setup_temp_folder e (disk w0)) = Inr (Some src)"
    and arch: "make_archive e (setup_temp_folder e (disk w0))
           (build_local_path e TEMP_DIR_NAME @ [create_backup_name e]) (Some src) = Inr fs2"
    and up: "upload_zipped_folder e cfg (w0\<lparr>disk := fs2\<rparr>) (create_backup_name e)
           (add_suffix (build_local_path e TEMP_DIR_NAME @ [create_backup_name e]) ''.zip'') = Inl err"
    by simp_all
  note r = upload_failure_state [OF loc arch up]
  show "main e cfg T w0 = (Some err, w0\<lparr>disk := fs2\<rparr>)" by (rule r(1))
  show "\<exists>data. map_of fs2 (build_local_path e TEMP_DIR_NAME @ [create_backup_name e @ ''.zip''])
              = Some (File (clock e) data)" by (rule r(2))
  show "\<exists>t. map_of fs2 src = Some (Dir t)" by (rule r(3))
  show "trash (snd (main e cfg T w0)) = trash w0" by (simp add: r(1))
next
  assume h: "trash (snd (main e cfg T w0)) \<noteq> trash w0"
  show "T" by (rule trash_needs_upload(1) [OF h])
  show "network_ok e" by (rule trash_needs_upload(2) [OF h])
  show "\<exists>data. bucket (snd (main e cfg T w0))
              (wasabi_archive_bucket_name cfg, s3_key cfg (create_backup_name e)) = Some data"
    by (rule trash_needs_upload(3) [OF h])
qed

theorem upload_failure_skips_cleanup_witness:
  "main ex_offline_env ex_cfg True ex_world
     = (Some S3UploadFailedError, ex_world\<lparr>disk := ex_archived_disk\<rparr>)
   \<and> trash (snd (main ex_offline_env ex_cfg True ex_world)) = []
   \<and> network_ok ex_env
   \<and> (\<exists>data. bucket (snd (main ex_env ex_cfg True ex_world))
         (''archive'', ''host1/backup_20120515-155045.zip'') = Some data)"
proof -
  let ?src = "[''data'', ''backups'', ''run_b'']"
  have fs1: "setup_temp_folder ex_offline_env (disk ex_world) = ex_disk"
    by code_simp
  have h1: "find_backup_folder ex_cfg (setup_temp_folder ex_offline_env (disk ex_world)) = Inr (Some ?src)"
    unfolding fs1 by code_simp
  have h2: "make_archive ex_offline_env (setup_temp_folder ex_offline_env (disk ex_world))
              (build_local_path ex_offline_env TEMP_DIR_NAME @ [create_backup_name ex_offline_env])
              (Some ?src) = Inr ex_archived_disk"
    unfolding fs1 by code_simp
  have h3: "upload_zipped_folder ex_offline_env ex_cfg (ex_world\<lparr>disk := ex_archived_disk\<rparr>)
              (create_backup_name ex_offline_env)
              (add_suffix (build_local_path ex_offline_env TEMP_DIR_NAME @ [create_backup_name ex_offline_env]) ''.zip'')
            = Inl S3UploadFailedError"
    by (simp add: upload_zipped_folder_def read_file_def add_suffix_def build_local_path_def
        TEMP_DIR_NAME_def create_backup_name_def BACKUP_PREFIX_def ex_offline_env_def
        ex_env_def ex_world_def ex_archived_disk_def ex_disk_def)
  have h4: "trash (snd (main ex_env ex_cfg True ex_world)) \<noteq> trash ex_world"
    by code_simp
  have key: "s3_key ex_cfg (create_backup_name ex_env) = ''host1/backup_20120515-155045.zip''"
    by code_simp
  have bkt: "wasabi_archive_bucket_name ex_cfg = ''archive''"
    by (simp add: ex_defs)
  have tr: "trash ex_world = []"
    by (simp add: ex_defs)
  have a: "main ex_offline_env ex_cfg True ex_world
             = (Some S3UploadFailedError, ex_world\<lparr>disk := ex_archived_disk\<rparr>)
           \<and> trash (snd (main ex_offline_env ex_cfg True ex_world)) = trash ex_world"
    using upload_failure_skips_cleanup [of ex_cfg ex_offline_env ex_world ?src ex_archived_disk
        S3UploadFailedError True] h1 h2 h3
    by blast
  have b: "network_ok ex_env
           \<and> (\<exists>data. bucket (snd (main ex_env ex_cfg True ex_world))
                 (wasabi_archive_bucket_name ex_cfg, s3_key ex_cfg (create_backup_name ex_env))
                 = Some data)"
    using upload_failure_skips_cleanup [of ex_cfg ex_env ex_world ?src ex_archived_disk
        S3UploadFailedError True] h4
    by blast
  show ?thesis
    using a b by (simp add: key bkt tr)
qed

lemma main_bucket:
  fixes e :: "('t::linorder) env"
  shows "bucket (snd (main e cfg T w0)) = bucket w0
    \<or> (\<exists>data. bucket (snd (main e cfg T w0))
          = (bucket w0)((wasabi_archive_bucket_name cfg, s3_key cfg (create_backup_name e)) \<mapsto> data))"
proof (cases rule: main_cases [of cfg e w0 T])
  case (locate err)
  then show ?thesis by simp
next
  case (archive src err)
  then show ?thesis by simp
next
  case (upload src fs2 err)
  then show ?thesis by simp
next
  case (cleanup src fs2 w3)
  from upload_zipped_folder_returns(4) [OF cleanup(3)]
  show ?thesis by (auto simp: cleanup(4) cleanup_bucket)
qed

lemma main_success:
  fixes e :: "('t::linorder) env"
  assumes "fst (main e cfg T w0) = None"
  shows "\<exists>src fs2 data.
      find_backup_folder cfg (setup_temp_folder e (disk w0)) = Inr (Some src)
    \<and> make_archive e (setup_temp_folder e (disk w0))
         (build_local_path e TEMP_DIR_NAME @ [create_backup_name e]) (Some src) = Inr fs2
    \<and> map_of fs2 (build_local_path e TEMP_DIR_NAME @ [create_backup_name e @ ''.zip''])
         = Some (File (clock e) data)
    \<and> bucket (snd (main e cfg T w0))
         = (bucket w0)((wasabi_archive_bucket_name cfg, s3_key cfg (create_backup_name e)) \<mapsto> data)"
proof (cases rule: main_cases [of cfg e w0 T])
  case (locate err)
  then show ?thesis using assms by simp
next
  case (archive src err)
  then show ?thesis using assms by simp
next
  case (upload src fs2 err)
  then show ?thesis using assms by simp
next
  case (cleanup osrc fs2 w3)
  let ?zp = "build_local_path e TEMP_DIR_NAME @ [create_backup_name e @ ''.zip'']"
  obtain src where src: "osrc = Some src"
    using cleanup(1) find_backup_folder_not_None [of cfg "setup_temp_folder e (disk w0)"]
    by (cases osrc) auto
  from upload_zipped_folder_returns(4) [OF cleanup(3)]
  obtain data where rd: "read_file fs2 ?zp = Inr data"
    and bk: "bucket w3 = (bucket w0)((wasabi_archive_bucket_name cfg, s3_key cfg (create_backup_name e)) \<mapsto> data)"
    by (auto simp: add_suffix_snoc)
  have cd: "create_directory (setup_temp_folder e (disk w0)) (clock e) (build_local_path e TEMP_DIR_NAME)
            = setup_temp_folder e (disk w0)"
    by (rule create_directory_existing [OF setup_temp_folder_exists])
  have "\<exists>c. map_of fs2 ?zp = Some (File (clock e) c)"
    using make_archive_result(2) [OF cleanup(2) [unfolded src]] by (auto simp: map_of_store)
  then have zipfile: "map_of fs2 ?zp = Some (File (clock e) data)"
    using rd by (auto simp: read_file_def)
  have "bucket (snd (main e cfg T w0)) = bucket w3"
    by (simp add: cleanup(4) cleanup_bucket)
  then show ?thesis
    using cleanup(1,2) src zipfile bk by auto
qed

text \<open>
  Claim C7. The key is \<^verbatim>\<open><machine_name>/<backup_prefix>_<timestamp>.zip\<close>. No run
  writes to the bucket under another key. In a run that ends normally, the Archiver has
  written the file \<^verbatim>\<open><backup name>.zip\<close> in the scratch directory, and the content of
  that file is what the bucket holds under the key: one backup name serves for both.
\<close>

theorem remote_key_uses_backup_name:
  fixes e :: "('t::linorder) env"
  shows "s3_key cfg (create_backup_name e)
           = machine_name cfg @ ''/'' @ BACKUP_PREFIX @ ''_'' @ strftime e @ ''.zip''
    \<and> (bucket (snd (main e cfg T w0)) = bucket w0
       \<or> (\<exists>data. bucket (snd (main e cfg T w0))
             = (bucket w0)((wasabi_archive_bucket_name cfg, s3_key cfg (create_backup_name e)) \<mapsto> data)))
    \<and> (fst (main e cfg T w0) = None \<longrightarrow>
         (\<exists>src fs2 data.
            find_backup_folder cfg (setup_temp_folder e (disk w0)) = Inr (Some src)
          \<and> make_archive e (setup_temp_folder e (disk w0))
               (build_local_path e TEMP_DIR_NAME @ [create_backup_name e]) (Some src) = Inr fs2
          \<and> map_of fs2 (build_local_path e TEMP_DIR_NAME @ [create_backup_name e @ ''.zip''])
               = Some (File (clock e) data)
          \<and> bucket (snd (main e cfg T w0))
               = (bucket w0)((wasabi_archive_bucket_name cfg, s3_key cfg (create_backup_name e)) \<mapsto> data)))"
proof (intro conjI impI)
  show "s3_key cfg (create_backup_name e)
           = machine_name cfg @ ''/'' @ BACKUP_PREFIX @ ''_'' @ strftime e @ ''.zip''"
    by (simp add: s3_key_def create_backup_name_def)
  show "bucket (snd (main e cfg T w0)) = bucket w0
       \<or> (\<exists>data. bucket (snd (main e cfg T w0))
             = (bucket w0)((wasabi_archive_bucket_name cfg, s3_key cfg (create_backup_name e)) \<mapsto> data))"
    by (rule main_bucket)
next
  assume "fst (main e cfg T w0) = None"
  then show "\<exists>src fs2 data.
            find_backup_folder cfg (setup_temp_folder e (disk w0)) = Inr (Some src)
          \<and> make_archive e (setup_temp_folder e (disk w0))
               (build_local_path e TEMP_DIR_NAME @ [create_backup_name e]) (Some src) = Inr fs2
          \<and> map_of fs2 (build_local_path e TEMP_DIR_NAME @ [create_backup_name e @ ''.zip''])
               = Some (File (clock e) data)
          \<and> bucket (snd (main e cfg T w0))
               = (bucket w0)((wasabi_archive_bucket_name cfg, s3_key cfg (create_backup_name e)) \<mapsto> data)"
    by (rule main_success)
qed

theorem remote_key_uses_backup_name_witness:
  "s3_key ex_cfg (create_backup_name ex_env) = ''host1/backup_20120515-155045.zip''
   \<and> (\<exists>fs2 data.
         map_of fs2 [''opt'', ''helper'', ''temp'', ''backup_20120515-155045.zip''] = Some (File (9::int) data)
       \<and> bucket (snd (main ex_env ex_cfg False ex_world))
           = [(''archive'', ''host1/backup_20120515-155045.zip'') \<mapsto> data])"
proof -
  have ok: "fst (main ex_env ex_cfg False ex_world) = None"
    by code_simp
  have key: "s3_key ex_cfg (create_backup_name ex_env) = ''host1/backup_20120515-155045.zip''"
    by code_simp
  have zp: "build_local_path ex_env TEMP_DIR_NAME @ [create_backup_name ex_env @ ''.zip'']
            = [''opt'', ''helper'', ''temp'', ''backup_20120515-155045.zip'']"
    by code_simp
  have c: "clock ex_env = 9" "bucket ex_world = Map.empty" "wasabi_archive_bucket_name ex_cfg = ''archive''"
    by (simp_all add: ex_defs)
  from remote_key_uses_backup_name [of ex_cfg ex_env False ex_world] ok
  have "\<exists>src fs2 data.
            find_backup_folder ex_cfg (setup_temp_folder ex_env (disk ex_world)) = Inr (Some src)
          \<and> make_archive ex_env (setup_temp_folder ex_env (disk ex_world))
               (build_local_path ex_env TEMP_DIR_NAME @ [create_backup_name ex_env]) (Some src) = Inr fs2
          \<and> map_of fs2 (build_local_path ex_env TEMP_DIR_NAME @ [create_backup_name ex_env @ ''.zip''])
               = Some (File (clock ex_env) data)
          \<and> bucket (snd (main ex_env ex_cfg False ex_world))
               = (bucket ex_world)((wasabi_archive_bucket_name ex_cfg, s3_key ex_cfg (create_backup_name ex_env)) \<mapsto> data)"
    by blast
  then show ?thesis
    unfolding key zp c by blast
qed

section \<open>The backup directory without the trash flag\<close>

lemma store_frame:
  "\<not> prefix src p \<Longrightarrow>
   filter (\<lambda>f. prefix src (fst f)) (store p n fs) = filter (\<lambda>f. prefix src (fst f)) fs"
  by (induction fs) auto

lemma create_directory_frame:
  "\<not> prefix src d \<Longrightarrow>
   filter (\<lambda>f. prefix src (fst f)) (create_directory fs now d)
   = filter (\<lambda>f. prefix src (fst f)) fs"
  by (simp add: create_directory_def)

lemma create_directory_keeps:
  "map_of fs p = Some n \<Longrightarrow> map_of (create_directory fs now d) p = Some n"
  by (simp add: create_directory_def map_add_def)

lemma create_directory_wf:
  "wf_fs fs \<Longrightarrow> wf_fs (create_directory fs now d)"
  by (auto simp: create_directory_def wf_fs_def map_of_eq_None_iff)

lemma latest_loop_result:
  "latest_loop fs ps ret newest = Inr (Some p) \<Longrightarrow> ret = Some p \<or> p \<in> set ps"
proof (induction ps arbitrary: ret newest)
  case Nil
  then show ?case by simp
next
  case (Cons a ps)
  then show ?case
    by (fastforce split: sum.splits option.splits if_splits)
qed

lemma find_backup_folder_is_dir:
  assumes wf: "wf_fs fs" and sel: "find_backup_folder cfg fs = Inr (Some src)"
  shows "\<exists>t. map_of fs src = Some (Dir t)"
proof -
  from sel obtain entries where scan: "scandir fs (machine_backup_folder_path cfg) = Inr entries"
    and res: "find_latest_modified_directory fs (map fst (filter (\<lambda>f. is_dir (snd f)) entries))
              = Inr (Some src)"
    by (auto simp: find_backup_folder_def Let_def split: sum.splits if_splits)
  from latest_loop_result [OF res [unfolded find_latest_modified_directory_def]]
  have "src \<in> set (map fst (filter (\<lambda>f. is_dir (snd f)) entries))" by simp
  then obtain n where n: "(src, n) \<in> set entries" "is_dir n" by auto
  then have "(src, n) \<in> set fs" using scandir_subset [OF scan] by auto
  then have "map_of fs src = Some n" using wf by (simp add: wf_fs_def)
  then show ?thesis using n(2) by (cases n) auto
qed

lemma make_archive_frame:
  assumes arch: "make_archive e fs (t @ [b]) (Some src) = Inr fs2"
    and out: "\<not> prefix src t"
  shows "filter (\<lambda>f. prefix src (fst f)) fs2 = filter (\<lambda>f. prefix src (fst f)) fs"
    and "\<exists>tm. map_of fs2 src = Some (Dir tm)"
proof -
  let ?cd = "create_directory fs (clock e) t"
  let ?zp = "t @ [b @ ''.zip'']"
  from make_archive_result [OF arch]
  obtain tm data where src: "map_of fs src = Some (Dir tm)"
    and fs2: "fs2 = store ?zp (File (clock e) data) ?cd"
    and nodir: "map_of ?cd ?zp \<noteq> Some (Dir tm)"
    by auto
  have keep: "map_of ?cd src = Some (Dir tm)"
    by (rule create_directory_keeps [OF src])
  then have ne: "?zp \<noteq> src" using nodir by auto
  then have "\<not> prefix src ?zp" using out by auto
  then have "filter (\<lambda>f. prefix src (fst f)) fs2 = filter (\<lambda>f. prefix src (fst f)) ?cd"
    unfolding fs2 by (rule store_frame)
  also have "\<dots> = filter (\<lambda>f. prefix src (fst f)) fs"
    by (rule create_directory_frame [OF out])
  finally show "filter (\<lambda>f. prefix src (fst f)) fs2 = filter (\<lambda>f. prefix src (fst f)) fs" .
  show "\<exists>tm. map_of fs2 src = Some (Dir tm)"
    using keep ne by (simp add: fs2 map_of_store)
qed

lemma remove_loop_frame:
  assumes "map_of fs src = Some (Dir tm)" and "\<not> prefix src t"
  shows "filter (\<lambda>f. prefix src (fst f)) (snd (remove_loop t names fs))
         = filter (\<lambda>f. prefix src (fst f)) fs"
  using assms
proof (induction names arbitrary: fs)
  case Nil
  then show ?case by simp
next
  case (Cons f names)
  let ?q = "t @ [f]"
  show ?case
  proof (cases "os_remove fs ?q")
    case (Inl err)
    then show ?thesis by simp
  next
    case (Inr fs')
    then have fs': "fs' = filter (\<lambda>g. fst g \<noteq> ?q) fs" and ne: "?q \<noteq> src"
      using Cons.prems(1) by (auto simp: os_remove_def split: option.splits node.splits)
    have np: "\<not> prefix src ?q" using ne Cons.prems(2) by auto
    have "map_of fs' src = map_of fs src"
      unfolding fs' using ne by (intro map_of_filter_key [of "\<lambda>k. k \<noteq> ?q"]) simp
    then have src': "map_of fs' src = Some (Dir tm)" using Cons.prems(1) by simp
    have "filter (\<lambda>f. prefix src (fst f)) fs' = filter (\<lambda>f. prefix src (fst f)) fs"
      unfolding fs' using np by (induction fs) auto
    then show ?thesis
      using Cons.IH [OF src' Cons.prems(2)] Inr by simp
  qed
qed

lemma clean_temp_folder_frame:
  assumes "map_of fs src = Some (Dir tm)" and "\<not> prefix src (build_local_path e TEMP_DIR_NAME)"
  shows "filter (\<lambda>f. prefix src (fst f)) (snd (clean_temp_folder e fs))
         = filter (\<lambda>f. prefix src (fst f)) fs"
  using remove_loop_frame [OF assms]
  by (simp add: clean_temp_folder_def Let_def split: sum.splits)

text \<open>
  Claim C6. In a run without the trash flag, when the scratch directory is not the
  selected backup directory \<open>src\<close> nor inside it, the entries of the store at and under
  \<open>src\<close> are the same after the run as before it, whether the run ends normally or with
  an exception: \<open>src\<close> is still a directory at its path, and the trash is as it was.
  The last theorem below shows a run whose scratch directory lies inside the selected
  directory: the sweep removes the stray archive \<^verbatim>\<open>temp/old.zip\<close> from it.
\<close>

theorem source_untouched_without_trash_flag:
  fixes e :: "('t::linorder) env"
  assumes wf: "wf_fs (disk w0)"
    and sel: "find_backup_folder cfg (setup_temp_folder e (disk w0)) = Inr (Some src)"
    and out: "\<not> prefix src (build_local_path e TEMP_DIR_NAME)"
  shows "filter (\<lambda>f. prefix src (fst f)) (disk (snd (main e cfg False w0)))
           = filter (\<lambda>f. prefix src (fst f)) (disk w0)
    \<and> (\<exists>t. map_of (disk (snd (main e cfg False w0))) src = Some (Dir t))
    \<and> trash (snd (main e cfg False w0)) = trash w0"
proof -
  let ?fs1 = "setup_temp_folder e (disk w0)"
  let ?t = "build_local_path e TEMP_DIR_NAME"
  let ?under = "\<lambda>f. prefix src (fst f)"
  have "wf_fs ?fs1"
    unfolding setup_temp_folder_def by (rule create_directory_wf [OF wf])
  from find_backup_folder_is_dir [OF this sel]
  obtain tm where dir1: "map_of ?fs1 src = Some (Dir tm)" by blast
  have fr1: "filter ?under ?fs1 = filter ?under (disk w0)"
    unfolding setup_temp_folder_def by (rule create_directory_frame [OF out])
  have frame: "filter ?under (disk (snd (main e cfg False w0))) = filter ?under ?fs1
          \<and> trash (snd (main e cfg False w0)) = trash w0"
  proof (cases rule: main_cases [of cfg e w0 False])
    case (locate err)
    then show ?thesis using sel by simp
  next
    case (archive osrc err)
    then show ?thesis by simp
  next
    case (upload osrc fs2 err)
    then have "make_archive e ?fs1 (?t @ [create_backup_name e]) (Some src) = Inr fs2"
      using sel by simp
    from make_archive_frame(1) [OF this out] show ?thesis
      using upload(4) by simp
  next
    case (cleanup osrc fs2 w3)
    then have arch: "make_archive e ?fs1 (?t @ [create_backup_name e]) (Some src) = Inr fs2"
      using sel by simp
    note up = upload_zipped_folder_returns [OF cleanup(3)]
    from make_archive_frame(2) [OF arch out]
    obtain tm2 where dir2: "map_of fs2 src = Some (Dir tm2)" by blast
    have "filter ?under (snd (clean_temp_folder e fs2)) = filter ?under fs2"
      by (rule clean_temp_folder_frame [OF dir2 out])
    also have "\<dots> = filter ?under ?fs1"
      by (rule make_archive_frame(1) [OF arch out])
    finally show ?thesis
      using up(2,3) by (simp add: cleanup(4) cleanup_no_trash)
  qed
  then have eq: "filter ?under (disk (snd (main e cfg False w0))) = filter ?under (disk w0)"
    using fr1 by simp
  have "map_of (disk (snd (main e cfg False w0))) src
          = map_of (filter ?under (disk (snd (main e cfg False w0)))) src"
    by (rule map_of_filter_key [of "prefix src", symmetric]) simp
  also have "\<dots> = map_of (filter ?under ?fs1) src"
    using frame by simp
  also have "\<dots> = map_of ?fs1 src"
    by (rule map_of_filter_key [of "prefix src"]) simp
  finally have "map_of (disk (snd (main e cfg False w0))) src = Some (Dir tm)"
    using dir1 by simp
  then show ?thesis using eq frame by blast
qed

theorem source_untouched_without_trash_flag_witness:
  "filter (\<lambda>f. prefix [''data'', ''backups'', ''run_b''] (fst f))
       (disk (snd (main ex_env ex_cfg False ex_world)))
     = [([''data'', ''backups'', ''run_b''], Dir 2),
        ([''data'', ''backups'', ''run_b'', ''db.sql''], File 2 ''rows'')]
   \<and> trash (snd (main ex_env ex_cfg False ex_world)) = []"
proof -
  let ?src = "[''data'', ''backups'', ''run_b'']"
  have h1: "wf_fs (disk ex_world)"
    by (simp add: wf_fs_def ex_world_def ex_disk_def)
  have h2: "find_backup_folder ex_cfg (setup_temp_folder ex_env (disk ex_world)) = Inr (Some ?src)"
    by code_simp
  have h3: "\<not> prefix ?src (build_local_path ex_env TEMP_DIR_NAME)"
    by code_simp
  have before: "filter (\<lambda>f. prefix ?src (fst f)) (disk ex_world)
     = [(?src, Dir 2), ([''data'', ''backups'', ''run_b'', ''db.sql''], File 2 ''rows'')]"
    by (simp add: ex_world_def ex_disk_def)
  have tr: "trash ex_world = []"
    by (simp add: ex_world_def)
  show ?thesis
    using source_untouched_without_trash_flag [OF h1 h2 h3] by (simp add: before tr)
qed

theorem scratch_inside_source_is_swept:
  "find_backup_folder ex_nested_cfg (setup_temp_folder ex_env (disk ex_world))
     = Inr (Some [''opt'', ''helper''])
   \<and> fst (main ex_env ex_nested_cfg False ex_world) = None
   \<and> map_of (disk ex_world) [''opt'', ''helper'', ''temp'', ''old.zip'']
       = Some (File 0 ''PK-old'')
   \<and> map_of (disk (snd (main ex_env ex_nested_cfg False ex_world)))
         [''opt'', ''helper'', ''temp'', ''old.zip''] = None"
  by code_simp

section \<open>The archive format of the examples\<close>

lemma dec_len_enc: "dec_len (enc_len n @ r) = (n, r)"
proof -
  have "takeWhile (\<lambda>c. c = CHR ''1'') (replicate n CHR ''1'' @ CHR ''0'' # r) = replicate n CHR ''1''"
    by (induction n) auto
  then show ?thesis
    by (simp add: dec_len_def enc_len_def)
qed

lemma dec_str_enc: "dec_str (enc_str s @ r) = (s, r)"
  by (simp add: dec_str_def enc_str_def dec_len_enc)

lemma dec_many_enc:
  assumes "\<And>x r. d (f x @ r) = (x, r)"
  shows "dec_many d (length xs) (concat (map f xs) @ r) = (xs, r)"
  by (induction xs arbitrary: r) (simp_all add: assms)

lemma dec_path_enc: "dec_path (enc_path p @ r) = (p, r)"
  by (simp add: dec_path_def enc_path_def dec_len_enc dec_many_enc [of dec_str enc_str] dec_str_enc)

lemma dec_file_enc: "dec_file (enc_file f @ r) = (f, r)"
  by (simp add: dec_file_def enc_file_def dec_path_enc dec_str_enc)

lemma unpack_pack: "unpack (pack tree) = files_of tree"
  using dec_many_enc [of dec_file enc_file "files_of tree" "[]"]
  by (simp add: unpack_def pack_def dec_len_enc dec_file_enc)

section \<open>Properties of the Archiver\<close>

lemma subtree_outside:
  assumes "filter (\<lambda>f. prefix root (fst f)) fs' = filter (\<lambda>f. prefix root (fst f)) fs"
  shows "subtree fs' root = subtree fs root"
  using assms by (simp add: subtree_def)

lemma butlast_outside: "\<not> prefix root p \<Longrightarrow> \<not> prefix root (butlast p)"
  using prefix_order.trans [OF _ prefixeq_butlast] by blast

lemma make_archive_content:
  assumes arch: "make_archive e fs base (Some root) = Inr fs2"
    and out: "\<not> prefix root (add_suffix base ''.zip'')"
  shows "read_file fs2 (add_suffix base ''.zip'') = Inr (zip_bytes e (subtree fs root))"
proof -
  let ?zp = "add_suffix base ''.zip''"
  let ?cd = "create_directory fs (clock e) (butlast ?zp)"
  let ?opened = "store ?zp (File (clock e) (zip_partial e)) ?cd"
  have "filter (\<lambda>f. prefix root (fst f)) ?opened = filter (\<lambda>f. prefix root (fst f)) ?cd"
    by (rule store_frame [OF out])
  also have "\<dots> = filter (\<lambda>f. prefix root (fst f)) fs"
    by (rule create_directory_frame [OF butlast_outside [OF out]])
  finally have "subtree ?opened root = subtree fs root"
    by (rule subtree_outside)
  then have "fs2 = store ?zp (File (clock e) (zip_bytes e (subtree fs root))) ?cd"
    using make_archive_unfold(3) [OF arch] by simp
  then show ?thesis
    by (simp add: read_file_def map_of_store)
qed

lemma main_uploads_archive:
  fixes e :: "('t::linorder) env"
  assumes ok: "fst (main e cfg T w0) = None"
    and sel: "find_backup_folder cfg (setup_temp_folder e (disk w0)) = Inr (Some src)"
    and out: "\<not> prefix src (build_local_path e TEMP_DIR_NAME @ [create_backup_name e @ ''.zip''])"
  shows "bucket (snd (main e cfg T w0))
           (wasabi_archive_bucket_name cfg, s3_key cfg (create_backup_name e))
         = Some (zip_bytes e (subtree (setup_temp_folder e (disk w0)) src))"
proof (cases rule: main_cases [of cfg e w0 T])
  case (locate err)
  then show ?thesis using ok by simp
next
  case (archive osrc err)
  then show ?thesis using ok by simp
next
  case (upload osrc fs2 err)
  then show ?thesis using ok by simp
next
  case (cleanup osrc fs2 w3)
  let ?base = "build_local_path e TEMP_DIR_NAME @ [create_backup_name e]"
  have arch: "make_archive e (setup_temp_folder e (disk w0)) ?base (Some src) = Inr fs2"
    using cleanup(1,2) sel by simp
  have out': "\<not> prefix src (add_suffix ?base ''.zip'')"
    unfolding add_suffix_snoc by (rule out)
  from upload_zipped_folder_returns(4) [OF cleanup(3)]
  obtain data where rd: "read_file fs2 (add_suffix ?base ''.zip'') = Inr data"
    and bk: "bucket w3 = (bucket w0)((wasabi_archive_bucket_name cfg, s3_key cfg (create_backup_name e)) \<mapsto> data)"
    by auto
  have "data = zip_bytes e (subtree (setup_temp_folder e (disk w0)) src)"
    using make_archive_content [OF arch out'] rd by simp
  moreover have "bucket (snd (main e cfg T w0)) = bucket w3"
    by (simp add: cleanup(4) cleanup_bucket)
  ultimately show ?thesis using bk by simp
qed

text \<open>
  Claim C3. Let \<open>extract\<close> give back, from the bytes of an archive, the files of the
  tree the archive was made from, as the extraction of the library does. When the archive
  file does not lie inside the archived directory, the file the Archiver has written
  extracts to exactly the files that were under the directory, each at its relative path
  with its content. In a run that ends normally, the object in the bucket extracts to
  exactly the files of the selected directory, when the archive file in the scratch
  directory does not lie inside that directory. The last theorem below shows an archive
  written inside the directory it archives, by the Archiver alone and in a run: the walk
  finds the archive file and adds it with what it holds at that moment, so extraction
  gives three files where the directory had two, the third with a content that is not
  the content of the archive file.
\<close>

theorem archive_extract_round_trip:
  fixes e :: "('t::linorder) env"
  assumes rt: "\<forall>tree. extract (zip_bytes e tree) = files_of tree"
  shows "(make_archive e fs base (Some root) = Inr fs2
            \<and> \<not> prefix root (add_suffix base ''.zip'')
          \<longrightarrow> (\<exists>data. read_file fs2 (add_suffix base ''.zip'') = Inr data
                 \<and> extract data = files_of (subtree fs root)))
    \<and> (fst (main e cfg T w0) = None
            \<and> find_backup_folder cfg (setup_temp_folder e (disk w0)) = Inr (Some src)
            \<and> \<not> prefix src (build_local_path e TEMP_DIR_NAME @ [create_backup_name e @ ''.zip''])
          \<longrightarrow> (\<exists>data. bucket (snd (main e cfg T w0))
                        (wasabi_archive_bucket_name cfg, s3_key cfg (create_backup_name e)) = Some data
                 \<and> extract data = files_of (subtree (setup_temp_folder e (disk w0)) src)))"
proof (intro conjI impI)
  assume "make_archive e fs base (Some root) = Inr fs2
            \<and> \<not> prefix root (add_suffix base ''.zip'')"
  then have "read_file fs2 (add_suffix base ''.zip'') = Inr (zip_bytes e (subtree fs root))"
    by (intro make_archive_content) simp_all
  then show "\<exists>data. read_file fs2 (add_suffix base ''.zip'') = Inr data
                 \<and> extract data = files_of (subtree fs root)"
    using rt by simp
next
  assume "fst (main e cfg T w0) = None
            \<and> find_backup_folder cfg (setup_temp_folder e (disk w0)) = Inr (Some src)
            \<and> \<not> prefix src (build_local_path e TEMP_DIR_NAME @ [create_backup_name e @ ''.zip''])"
  then have "bucket (snd (main e cfg T w0))
               (wasabi_archive_bucket_name cfg, s3_key cfg (create_backup_name e))
             = Some (zip_bytes e (subtree (setup_temp_folder e (disk w0)) src))"
    by (intro main_uploads_archive) simp_all
  then show "\<exists>data. bucket (snd (main e cfg T w0))
                        (wasabi_archive_bucket_name cfg, s3_key cfg (create_backup_name e)) = Some data
                 \<and> extract data = files_of (subtree (setup_temp_folder e (disk w0)) src)"
    using rt by simp
qed

theorem archive_extract_round_trip_witness:
  "(\<exists>data. read_file
              (ex_disk @ [([''opt'', ''helper'', ''temp'', ''backup_x.zip''],
                           File 9 (pack (subtree ex_disk [''data'', ''backups'', ''run_b''])))])
              [''opt'', ''helper'', ''temp'', ''backup_x.zip''] = Inr data
          \<and> unpack data = [([''db.sql''], ''rows'')])
   \<and> (\<exists>data. bucket (snd (main ex_pack_env ex_cfg False ex_world))
                 (''archive'', ''host1/backup_20120515-155045.zip'') = Some data
          \<and> unpack data = [([''db.sql''], ''rows'')])"
proof -
  let ?src = "[''data'', ''backups'', ''run_b'']"
  let ?base = "[''opt'', ''helper'', ''temp'', ''backup_x'']"
  let ?fs2 = "ex_disk @ [([''opt'', ''helper'', ''temp'', ''backup_x.zip''],
                          File 9 (pack (subtree ex_disk ?src)))]"
  have rt: "\<forall>tree. unpack (zip_bytes ex_pack_env tree) = files_of (tree :: int filesystem)"
    by (simp add: ex_pack_env_def unpack_pack)
  have a1: "make_archive ex_pack_env ex_disk ?base (Some ?src) = Inr ?fs2"
    by code_simp
  have a2: "\<not> prefix ?src (add_suffix ?base ''.zip'')"
    by code_simp
  have zp: "add_suffix ?base ''.zip'' = [''opt'', ''helper'', ''temp'', ''backup_x.zip'']"
    by code_simp
  have b1: "fst (main ex_pack_env ex_cfg False ex_world) = None"
    by code_simp
  have b2: "find_backup_folder ex_cfg (setup_temp_folder ex_pack_env (disk ex_world)) = Inr (Some ?src)"
    by code_simp
  have b3: "\<not> prefix ?src (build_local_path ex_pack_env TEMP_DIR_NAME @ [create_backup_name ex_pack_env @ ''.zip''])"
    by code_simp
  have files: "files_of (subtree ex_disk ?src) = [([''db.sql''], ''rows'')]"
    "files_of (subtree (setup_temp_folder ex_pack_env (disk ex_world)) ?src) = [([''db.sql''], ''rows'')]"
    by code_simp+
  have key: "s3_key ex_cfg (create_backup_name ex_pack_env) = ''host1/backup_20120515-155045.zip''"
    "wasabi_archive_bucket_name ex_cfg = ''archive''"
    by code_simp+
  note inst = archive_extract_round_trip [OF rt, of ex_disk ?base ?src ?fs2 ex_cfg False ex_world ?src]
  have a: "\<exists>data. read_file ?fs2 (add_suffix ?base ''.zip'') = Inr data
             \<and> unpack data = files_of (subtree ex_disk ?src)"
    using inst a1 a2 by blast
  have b: "\<exists>data. bucket (snd (main ex_pack_env ex_cfg False ex_world))
                 (wasabi_archive_bucket_name ex_cfg, s3_key ex_cfg (create_backup_name ex_pack_env)) = Some data
             \<and> unpack data = files_of (subtree (setup_temp_folder ex_pack_env (disk ex_world)) ?src)"
    using inst b1 b2 b3 by blast
  show ?thesis
    using a b unfolding zp files key by blast
qed

theorem archive_inside_directory_holds_itself:
  "files_of (subtree ex_disk [''opt'', ''helper''])
     = [([''temp'', ''old.zip''], ''PK-old''), ([''temp'', ''keep.txt''], ''k'')]
   \<and> map_sum id (\<lambda>fs2. map_sum id unpack (read_file fs2 [''opt'', ''helper'', ''temp'', ''backup_x.zip'']))
        (make_archive ex_pack_env ex_disk [''opt'', ''helper'', ''temp'', ''backup_x'']
           (Some [''opt'', ''helper'']))
     = Inr (Inr [([''temp'', ''old.zip''], ''PK-old''), ([''temp'', ''keep.txt''], ''k''),
                 ([''temp'', ''backup_x.zip''], ''P'')])
   \<and> map_sum id (\<lambda>fs2. read_file fs2 [''opt'', ''helper'', ''temp'', ''backup_x.zip''])
        (make_archive ex_pack_env ex_disk [''opt'', ''helper'', ''temp'', ''backup_x'']
           (Some [''opt'', ''helper'']))
     \<noteq> Inr (Inr ''P'')
   \<and> fst (main ex_pack_env ex_nested_cfg False ex_world) = None
   \<and> map_option unpack
        (bucket (snd (main ex_pack_env ex_nested_cfg False ex_world))
           (''archive'', ''host1/backup_20120515-155045.zip''))
     = Some [([''temp'', ''old.zip''], ''PK-old''), ([''temp'', ''keep.txt''], ''k''),
             ([''temp'', ''backup_20120515-155045.zip''], ''P'')]"
  by code_simp






end
